theory Spec2Isabelle
  imports Main "HOL-Library.Sublist"
begin

section \<open>Go strings\<close>

text \<open>
  A Go string that is valid UTF-8 is modelled by the sequence of its code points (runes).
  On such strings the functions of package \<open>strings\<close> that compare bytes
  (\<^verbatim>\<open>Contains\<close>, \<^verbatim>\<open>Index\<close>, \<^verbatim>\<open>HasPrefix\<close>, \<^verbatim>\<open>HasSuffix\<close>, \<^verbatim>\<open>Split\<close>) do on the runes what they do
  on the bytes, since no encoding of a rune starts inside the encoding of another. The
  program uses the byte offset that \<^verbatim>\<open>Index\<close> returns only to test it against 0 and to cut
  the string there, so the offset is counted in runes here.

  A string that is not valid UTF-8 is outside the model; the titles come out of a JSON
  decoder and the deny lists out of a YAML file, which give valid UTF-8.

  A literal of the program is ASCII; \<open>runes\<close> gives its code points.
\<close>

type_synonym rune = nat

type_synonym gostring = "rune list"

definition rune_of :: "char \<Rightarrow> rune" where
  "rune_of c = of_char c"

definition runes :: "string \<Rightarrow> gostring" where
  "runes s = map rune_of s"

text \<open>
  The case mapping, the case folding and the white space of package \<open>unicode\<close> are tables
  of the Go library. They are parameters of the model: \<open>toLower\<close> is \<^verbatim>\<open>unicode.ToLower\<close>,
  \<open>simpleFold U a b\<close> says that \<^verbatim>\<open>unicode.SimpleFold\<close> leads from one of two different runes to
  the other, and \<open>isSpace\<close> is \<^verbatim>\<open>unicode.IsSpace\<close>. Every function that depends on them
  takes the tables as its first argument, and every theorem holds for all tables unless it
  states what it needs of them.
\<close>

record unicode =
  toLower :: "rune \<Rightarrow> rune"
  simpleFold :: "rune \<Rightarrow> rune \<Rightarrow> bool"
  isSpace :: "rune \<Rightarrow> bool"

text \<open>
  A fact of the tables of Unicode that one theorem needs: the at sign is the lower case
  of itself and of no other rune.
\<close>

definition keeps_at :: "unicode \<Rightarrow> bool" where
  "keeps_at U \<longleftrightarrow> (\<forall>c. toLower U c = rune_of CHR ''@'' \<longleftrightarrow> c = rune_of CHR ''@'')"

text \<open>\<^verbatim>\<open>strings.ToLower\<close> maps every rune through \<^verbatim>\<open>unicode.ToLower\<close>.\<close>

definition ToLower :: "unicode \<Rightarrow> gostring \<Rightarrow> gostring" where
  "ToLower U s = map (toLower U) s"

text \<open>
  \<^verbatim>\<open>strings.EqualFold\<close> walks both strings rune by rune: two runes pass when they are equal
  or equal under simple case folding, and both strings must end together.
\<close>

fun EqualFold :: "unicode \<Rightarrow> gostring \<Rightarrow> gostring \<Rightarrow> bool" where
  "EqualFold U [] [] = True"
| "EqualFold U (sr # s) (tr # t) = ((tr = sr \<or> simpleFold U sr tr) \<and> EqualFold U s t)"
| "EqualFold U _ _ = False"

text \<open>\<^verbatim>\<open>strings.HasPrefix\<close>, \<^verbatim>\<open>strings.HasSuffix\<close>, \<^verbatim>\<open>strings.TrimPrefix\<close>\<close>

fun HasPrefix :: "gostring \<Rightarrow> gostring \<Rightarrow> bool" where
  "HasPrefix s [] = True"
| "HasPrefix [] (p # ps) = False"
| "HasPrefix (c # s) (p # ps) = (c = p \<and> HasPrefix s ps)"

definition HasSuffix :: "gostring \<Rightarrow> gostring \<Rightarrow> bool" where
  "HasSuffix s suf = HasPrefix (rev s) (rev suf)"

definition TrimPrefix :: "gostring \<Rightarrow> gostring \<Rightarrow> gostring" where
  "TrimPrefix s p = (if HasPrefix s p then drop (length p) s else s)"

text \<open>\<^verbatim>\<open>strings.Contains\<close> and \<^verbatim>\<open>strings.Index\<close> (-1 when the substring is absent)\<close>

fun Contains :: "gostring \<Rightarrow> gostring \<Rightarrow> bool" where
  "Contains [] sub = (sub = [])"
| "Contains (c # s) sub = (HasPrefix (c # s) sub \<or> Contains s sub)"

fun Index :: "gostring \<Rightarrow> gostring \<Rightarrow> int" where
  "Index [] sub = (if sub = [] then 0 else - 1)"
| "Index (c # s) sub =
     (if HasPrefix (c # s) sub then 0
      else (let k = Index s sub in if k < 0 then - 1 else k + 1))"

text \<open>
  \<^verbatim>\<open>strings.Split(s, sep)\<close> for a separator of one rune, the only use the program makes of
  it: one more field than there are separators, so the empty string gives one empty field.
\<close>

fun Split :: "gostring \<Rightarrow> rune \<Rightarrow> gostring list" where
  "Split [] sep = [[]]"
| "Split (c # s) sep =
     (if c = sep then [] # Split s sep
      else (case Split s sep of f # fs \<Rightarrow> (c # f) # fs | [] \<Rightarrow> [[c]]))"

text \<open>
  \<^verbatim>\<open>strings.TrimSpace\<close> removes the white space at both ends, \<^verbatim>\<open>strings.Fields\<close> splits at
  every run of white space; white space is what \<^verbatim>\<open>unicode.IsSpace\<close> says.
\<close>

definition TrimSpace :: "unicode \<Rightarrow> gostring \<Rightarrow> gostring" where
  "TrimSpace U s = rev (dropWhile (isSpace U) (rev (dropWhile (isSpace U) s)))"

fun fields_from :: "unicode \<Rightarrow> gostring \<Rightarrow> gostring \<Rightarrow> gostring list" where
  "fields_from U cur [] = (if cur = [] then [] else [cur])"
| "fields_from U cur (c # s) =
     (if isSpace U c then (if cur = [] then fields_from U [] s else cur # fields_from U [] s)
      else fields_from U (cur @ [c]) s)"

definition Fields :: "unicode \<Rightarrow> gostring \<Rightarrow> gostring list" where
  "Fields U s = fields_from U [] s"

text \<open>
  For the examples that are computed below, the tables are written out on a part of
  Unicode: on ASCII and on the code points U+0085, U+00A0 (two spaces), U+00C9, U+00E9
  (the capital and the small e with an acute accent) and U+017F (the long s, which folds
  with \<open>S\<close> and \<open>s\<close> and is its own lower case). On these code points \<open>sample_tables\<close> is
  what the Go library has; no example uses another code point.
\<close>

definition ascii_lower :: "rune \<Rightarrow> rune" where
  "ascii_lower r = (if 65 \<le> r \<and> r \<le> 90 then r + 32 else r)"

definition sample_fold_key :: "rune \<Rightarrow> rune" where
  "sample_fold_key r =
     (if r = 0x17F then 0x73 else if r = 0xC9 then 0xE9 else ascii_lower r)"

definition sample_tables :: unicode where
  "sample_tables =
     \<lparr>toLower = (\<lambda>r. if r = 0xC9 then 0xE9 else ascii_lower r),
      simpleFold = (\<lambda>a b. sample_fold_key a = sample_fold_key b),
      isSpace = (\<lambda>r. r \<in> set [0x09, 0x0A, 0x0B, 0x0C, 0x0D, 0x20, 0x85, 0xA0])\<rparr>"

section \<open>The deny matcher\<close>

text \<open>
  \<^verbatim>\<open>isDenied\<close> of \<^verbatim>\<open>internal/scm/github.go\<close>. Its first loop runs over the denied packages
  and returns true at the first entry that matches. \<open>denied_package_entry\<close> is the body of
  that loop for one entry: true where the body returns true, false where it reaches
  \<^verbatim>\<open>continue\<close> or its end. An entry with a \<open>*\<close> is compared with four fixed patterns and
  then skipped. The second loop runs over the denied organisations.
\<close>

definition denied_package_entry :: "unicode \<Rightarrow> gostring \<Rightarrow> gostring \<Rightarrow> bool" where
  "denied_package_entry U packageName denied =
     (if Contains denied (runes ''*'') then
        (let pattern = ToLower U denied; pkg = ToLower U packageName in
         if pattern = runes ''*alpha*'' \<and> Contains pkg (runes ''alpha'') then True
         else if pattern = runes ''*beta*'' \<and> Contains pkg (runes ''beta'') then True
         else if pattern = runes ''*rc*'' \<and> Contains pkg (runes ''rc'') then True
         else if pattern = runes ''*/v0'' \<and> HasSuffix pkg (runes ''/v0'') then True
         else False)
      else if EqualFold U packageName denied then True
      else if Contains denied (runes ''@'') then
        (if Contains (ToLower U packageName) (ToLower U denied) then True else False)
      else
        (let deniedLower = ToLower U denied; pkgLower = ToLower U packageName in
         if pkgLower = deniedLower then True
         else (let idx = Index pkgLower (runes ''@'') in
               if idx > 0 \<and> take (nat idx) pkgLower = deniedLower then True else False)))"

fun denied_packages_loop :: "unicode \<Rightarrow> gostring \<Rightarrow> gostring list \<Rightarrow> bool" where
  "denied_packages_loop U packageName [] = False"
| "denied_packages_loop U packageName (denied # rest) =
     (if denied_package_entry U packageName denied then True
      else denied_packages_loop U packageName rest)"

fun denied_orgs_loop :: "unicode \<Rightarrow> gostring \<Rightarrow> gostring list \<Rightarrow> bool" where
  "denied_orgs_loop U orgName [] = False"
| "denied_orgs_loop U orgName (denied # rest) =
     (if EqualFold U orgName denied then True else denied_orgs_loop U orgName rest)"

definition isDenied ::
  "unicode \<Rightarrow> gostring \<Rightarrow> gostring \<Rightarrow> gostring list \<Rightarrow> gostring list \<Rightarrow> bool" where
  "isDenied U packageName orgName deniedPackages deniedOrgs =
     (if denied_packages_loop U packageName deniedPackages then True
      else denied_orgs_loop U orgName deniedOrgs)"

section \<open>Merging the deny lists\<close>

text \<open>
  \<^verbatim>\<open>removeDuplicates\<close> of \<^verbatim>\<open>cmd/dependawhat/commands.go\<close>. The Go map \<^verbatim>\<open>seen\<close> from
  strings to booleans is a function that is false where the map has no key; \<^verbatim>\<open>result\<close>
  grows at its end.
\<close>

fun removeDuplicates_loop ::
  "unicode \<Rightarrow> (gostring \<Rightarrow> bool) \<Rightarrow> gostring list \<Rightarrow> gostring list \<Rightarrow> gostring list" where
  "removeDuplicates_loop U seen result [] = result"
| "removeDuplicates_loop U seen result (item # rest) =
     (let normalized = ToLower U (TrimSpace U item) in
      if normalized \<noteq> [] \<and> \<not> seen normalized
      then removeDuplicates_loop U (seen(normalized := True)) (result @ [item]) rest
      else removeDuplicates_loop U seen result rest)"

definition removeDuplicates :: "unicode \<Rightarrow> gostring list \<Rightarrow> gostring list" where
  "removeDuplicates U slice = removeDuplicates_loop U (\<lambda>_. False) [] slice"

text \<open>
  The configuration store is outside the program; it is modelled by the string slices it
  holds under its keys. \<^verbatim>\<open>getStringSlice\<close> gives the empty slice for a key that is not set.
\<close>

type_synonym config = "gostring \<rightharpoonup> gostring list"

definition getStringSlice :: "config \<Rightarrow> gostring \<Rightarrow> gostring list" where
  "getStringSlice cfg key = (case cfg key of Some v \<Rightarrow> v | None \<Rightarrow> [])"

record DependencyUpdateQuery =
  Owner :: gostring
  Repo :: gostring
  DeniedPackages :: "gostring list"
  DeniedOrgs :: "gostring list"

text \<open>
  The query that \<^verbatim>\<open>runCheck\<close> builds for one repository: the global lists, the lists of the
  repository appended, duplicates removed.
\<close>

definition buildQuery ::
  "unicode \<Rightarrow> config \<Rightarrow> gostring \<Rightarrow> gostring \<Rightarrow> DependencyUpdateQuery" where
  "buildQuery U cfg owner repo =
     (let repoKey = owner @ runes ''/'' @ repo;
          deniedPackages = getStringSlice cfg (runes ''global.denied_packages'');
          deniedOrgs = getStringSlice cfg (runes ''global.denied_orgs'');
          deniedPackages = deniedPackages @
            getStringSlice cfg (runes ''repositories.'' @ repoKey @ runes ''.denied_packages'');
          deniedOrgs = deniedOrgs @
            getStringSlice cfg (runes ''repositories.'' @ repoKey @ runes ''.denied_orgs'');
          deniedPackages = removeDuplicates U deniedPackages;
          deniedOrgs = removeDuplicates U deniedOrgs
      in \<lparr>Owner = owner, Repo = repo,
          DeniedPackages = deniedPackages, DeniedOrgs = deniedOrgs\<rparr>)"

text \<open>
  What the merge promises, in the words of the specification: the merged list \<open>L\<close> of the
  configured list \<open>X\<close> keeps entries of \<open>X\<close> as they are and in their order, has no blank
  entry and no two entries equal after trimming and lower-casing, stands for every entry
  of \<open>X\<close> that is not blank, and each entry it keeps is the first of its kind in \<open>X\<close>:
  \<open>L\<close> is the list of the entries of \<open>X\<close> that are not blank and stand at an index before
  which no entry has the same trimmed lower-casing, in the order of \<open>X\<close>.
\<close>

definition normalized :: "unicode \<Rightarrow> gostring \<Rightarrow> gostring" where
  "normalized U item = ToLower U (TrimSpace U item)"

definition first_occurrence :: "unicode \<Rightarrow> gostring list \<Rightarrow> nat \<Rightarrow> bool" where
  "first_occurrence U X i \<longleftrightarrow>
     normalized U (X ! i) \<noteq> [] \<and> normalized U (X ! i) \<notin> normalized U ` set (take i X)"

definition deduplicated :: "unicode \<Rightarrow> gostring list \<Rightarrow> gostring list \<Rightarrow> bool" where
  "deduplicated U X L \<longleftrightarrow>
     L = map (\<lambda>i. X ! i) (filter (first_occurrence U X) [0..<length X]) \<and>
     subseq L X \<and>
     (\<forall>e \<in> set L. TrimSpace U e \<noteq> []) \<and>
     distinct (map (normalized U) L) \<and>
     normalized U ` set L = normalized U ` set X - {[]}"

section \<open>Regular expressions\<close>

text \<open>
  The three patterns of \<^verbatim>\<open>extractPackageInfo\<close> are written in the syntax of Go's package
  \<^verbatim>\<open>regexp\<close>, which matches rune by rune. Only the constructs they use are modelled: a
  class of one rune, the start of the text, sequence, alternative, the greedy star and plus
  of a class, and one capture group. All three carry the flag \<^verbatim>\<open>(?i)\<close>, so a literal is
  matched up to case; the letters of the patterns (those of \<open>bump\<close>, \<open>update\<close>, \<open>chore\<close>,
  \<open>from\<close> and \<open>to\<close>) fold with their ASCII capitals only. The class \<^verbatim>\<open>\s\<close> of the syntax
  is tab, line feed, form feed, carriage return and space: it has no vertical tab and no
  rune beyond ASCII. The dot matches every rune but the line feed.
\<close>

definition regex_space :: "rune \<Rightarrow> bool" where
  "regex_space c = (c \<in> set [0x09, 0x0A, 0x0C, 0x0D, 0x20])"

datatype cls = Lit rune | OneOf gostring | Space | NonSpace | AnyChar

fun cls_matches :: "cls \<Rightarrow> rune \<Rightarrow> bool" where
  "cls_matches (Lit c) d = (ascii_lower d = ascii_lower c)"
| "cls_matches (OneOf cs) d = (ascii_lower d \<in> set (map ascii_lower cs))"
| "cls_matches Space d = regex_space d"
| "cls_matches NonSpace d = (\<not> regex_space d)"
| "cls_matches AnyChar d = (d \<noteq> 0x0A)"

datatype rx = Eps | Atom cls | Bol | Seq rx rx | Alt rx rx | Star cls | Group rx

text \<open>
  A state of the matcher is the offset reached in the text, the text that is left and
  the text of the capture group, if it has been closed. \<open>ms r st\<close> lists the states in
  which a match of \<open>r\<close> that starts in \<open>st\<close> can end, in the order in which a backtracking
  search finds them: the first alternative before the second, a longer repetition before
  a shorter one. Go's \<^verbatim>\<open>regexp\<close> returns the leftmost match and, among the matches that
  start there, the one a backtracking search finds first.
\<close>

type_synonym mstate = "nat \<times> gostring \<times> gostring option"

fun ms :: "rx \<Rightarrow> mstate \<Rightarrow> mstate list" where
  "ms Eps st = [st]"
| "ms (Atom c) (i, s, g) =
     (case s of [] \<Rightarrow> [] | d # t \<Rightarrow> if cls_matches c d then [(Suc i, t, g)] else [])"
| "ms Bol (i, s, g) = (if i = 0 then [(i, s, g)] else [])"
| "ms (Seq r1 r2) st = concat (map (ms r2) (ms r1 st))"
| "ms (Alt r1 r2) st = ms r1 st @ ms r2 st"
| "ms (Star c) (i, s, g) =
     (case s of [] \<Rightarrow> [(i, s, g)]
      | d # t \<Rightarrow> if cls_matches c d then ms (Star c) (Suc i, t, g) @ [(i, s, g)]
                 else [(i, s, g)])"
| "ms (Group r) (i, s, g) =
     map (\<lambda>(j, t, _). (j, t, Some (take (j - i) s))) (ms r (i, s, g))"

definition Plus :: "cls \<Rightarrow> rx" where
  "Plus c = Seq (Atom c) (Star c)"

definition seqs :: "rx list \<Rightarrow> rx" where
  "seqs rs = foldr Seq rs Eps"

definition str :: "gostring \<Rightarrow> rx" where
  "str w = seqs (map (\<lambda>c. Atom (Lit c)) w)"

text \<open>
  \<^verbatim>\<open>FindStringSubmatch\<close>: the search tries every offset of the text from the left. The
  result is the empty slice when nothing matches, and else the matched text followed by the
  text of the group (empty when the group took no part).
\<close>

fun find_at :: "rx \<Rightarrow> nat \<Rightarrow> gostring \<Rightarrow> gostring list" where
  "find_at r i [] =
     (case ms r (i, [], None) of
        (j, t, g) # _ \<Rightarrow> [[], (case g of None \<Rightarrow> [] | Some x \<Rightarrow> x)]
      | [] \<Rightarrow> [])"
| "find_at r i (c # s) =
     (case ms r (i, c # s, None) of
        (j, t, g) # _ \<Rightarrow> [take (j - i) (c # s), (case g of None \<Rightarrow> [] | Some x \<Rightarrow> x)]
      | [] \<Rightarrow> find_at r (Suc i) s)"

definition FindStringSubmatch :: "rx \<Rightarrow> gostring \<Rightarrow> gostring list" where
  "FindStringSubmatch r s = find_at r 0 s"

section \<open>The title parser\<close>

text \<open>
  \<^verbatim>\<open>extractPackageInfo\<close> of \<^verbatim>\<open>internal/scm/github.go\<close>. The patterns are
  \<^verbatim>\<open>(?i)^[Bb]ump\s+([^\s]+)\s+(?:from|to)\<close>,
  \<^verbatim>\<open>(?i)^[Uu]pdate\s+([^\s]+)\s+(?:from|to)\<close> and
  \<^verbatim>\<open>(?i)^chore.*[Bb]ump\s+([^\s]+)\s+(?:from|to)\<close>, each with the index 1 of its group.
\<close>

definition package_from_to :: "rx list" where
  "package_from_to =
     [Plus Space, Group (Plus NonSpace), Plus Space,
      Alt (str (runes ''from'')) (str (runes ''to''))]"

definition pattern_bump :: rx where
  "pattern_bump =
     seqs ([Bol, Atom (OneOf (runes ''Bb'')), str (runes ''ump'')] @ package_from_to)"

definition pattern_update :: rx where
  "pattern_update =
     seqs ([Bol, Atom (OneOf (runes ''Uu'')), str (runes ''pdate'')] @ package_from_to)"

definition pattern_chore :: rx where
  "pattern_chore =
     seqs ([Bol, str (runes ''chore''), Star AnyChar, Atom (OneOf (runes ''Bb'')),
            str (runes ''ump'')] @ package_from_to)"

definition patterns :: "(rx \<times> nat) list" where
  "patterns = [(pattern_bump, 1), (pattern_update, 1), (pattern_chore, 1)]"

text \<open>The loop over the patterns: the first one that matches gives the package name.\<close>

fun match_patterns :: "(rx \<times> nat) list \<Rightarrow> gostring \<Rightarrow> gostring" where
  "match_patterns [] title = []"
| "match_patterns ((regex, pkgIndex) # ps) title =
     (let matches = FindStringSubmatch regex title in
      if length matches > pkgIndex then matches ! pkgIndex
      else match_patterns ps title)"

text \<open>The fallback: the first field after the first one that has a \<open>/\<close> or an \<open>@\<close>.\<close>

fun first_package_like :: "gostring list \<Rightarrow> gostring" where
  "first_package_like [] = []"
| "first_package_like (part # rest) =
     (if Contains part (runes ''/'') \<or> Contains part (runes ''@'') then part
      else first_package_like rest)"

definition fallback_package :: "unicode \<Rightarrow> gostring \<Rightarrow> gostring" where
  "fallback_package U title =
     (let parts = Fields U title in
      if length parts > 1 then first_package_like (drop 1 parts) else [])"

text \<open>
  The organisation of a package name. The last loop runs over the parts with their
  index and takes the first part, not at index 0, without a dot and not starting with
  \<open>v\<close>.
\<close>

fun first_org_part :: "nat \<Rightarrow> gostring list \<Rightarrow> gostring" where
  "first_org_part i [] = []"
| "first_org_part i (part # rest) =
     (if i > 0 \<and> \<not> Contains part (runes ''.'') \<and> \<not> HasPrefix part (runes ''v'') then part
      else first_org_part (Suc i) rest)"

definition extractOrg :: "unicode \<Rightarrow> gostring \<Rightarrow> gostring" where
  "extractOrg U packageName =
     (if packageName \<noteq> [] then
        (if HasPrefix packageName (runes ''@'') \<and> Contains packageName (runes ''/'') then
           (let parts = Split packageName (rune_of CHR ''/'') in
            TrimPrefix (parts ! 0) (runes ''@''))
         else if Contains packageName (runes ''/'') then
           (if HasPrefix packageName (runes ''golang.org/x/'') \<or>
               HasPrefix packageName (runes ''google.golang.org/'') then []
            else if HasPrefix packageName (runes ''gopkg.in/'') then
              (let parts = Split packageName (rune_of CHR ''/'') in
               if length parts > 2 then ToLower U (parts ! 1) else [])
            else
              (let parts = Split packageName (rune_of CHR ''/'') in
               if length parts \<ge> 3 \<and> HasPrefix packageName (runes ''github.com/'')
               then parts ! 1
               else first_org_part 0 parts))
         else [])
      else [])"

definition extractPackageInfo :: "unicode \<Rightarrow> gostring \<Rightarrow> gostring \<times> gostring" where
  "extractPackageInfo U title =
     (let packageName = match_patterns patterns title;
          packageName = (if packageName = [] then fallback_package U title else packageName);
          orgName = extractOrg U packageName
      in (packageName, orgName))"

section \<open>The pull requests of a repository\<close>

text \<open>
  \<^verbatim>\<open>GetDependabotPRsWithDenyList\<close> of \<^verbatim>\<open>internal/scm/github.go\<close>. The client of the hosting
  service is outside the program: \<open>listPulls\<close> stands for the answer to the request for the
  open pull requests of a repository, \<open>getStatus\<close> for the answer to the request for the
  combined status of a commit; either answer is an error or a value.
\<close>

datatype api_error = ApiError gostring

record PullRequest =
  prNumber :: int
  prTitle :: gostring
  prHTMLURL :: gostring
  prUserID :: int
  prHeadSHA :: gostring

record PRInfo =
  Number :: int
  Title :: gostring
  URL :: gostring
  Status :: gostring
  Skipped :: bool
  SkipReason :: gostring

definition dependabotUserID :: int where
  "dependabotUserID = 49699333"

text \<open>The two formats of \<^verbatim>\<open>fmt.Sprintf\<close>; the rune 0x27 is the single quote.\<close>

definition org_reason :: "gostring \<Rightarrow> gostring" where
  "org_reason orgName = runes ''org '' @ [0x27] @ orgName @ [0x27] @ runes '' is denied''"

definition package_reason :: "gostring \<Rightarrow> gostring" where
  "package_reason denied =
     runes ''package '' @ [0x27] @ denied @ [0x27] @ runes '' is denied''"

text \<open>
  The two loops that look for the reason. Each leaves the reason as it is, empty, when
  no entry is found.
\<close>

fun org_reason_loop :: "unicode \<Rightarrow> gostring \<Rightarrow> gostring list \<Rightarrow> gostring" where
  "org_reason_loop U orgName [] = []"
| "org_reason_loop U orgName (denied # rest) =
     (if EqualFold U orgName denied then org_reason orgName
      else org_reason_loop U orgName rest)"

fun package_reason_loop :: "unicode \<Rightarrow> gostring \<Rightarrow> gostring list \<Rightarrow> gostring" where
  "package_reason_loop U packageName [] = []"
| "package_reason_loop U packageName (denied # rest) =
     (if EqualFold U packageName denied \<or>
         Contains (ToLower U packageName) (ToLower U denied)
      then package_reason denied
      else package_reason_loop U packageName rest)"

text \<open>The body of the loop over the pull requests, for one pull request of the bot.\<close>

definition prInfo ::
  "unicode \<Rightarrow> DependencyUpdateQuery \<Rightarrow>
   (gostring \<Rightarrow> gostring \<Rightarrow> gostring \<Rightarrow> api_error + gostring) \<Rightarrow>
   PullRequest \<Rightarrow> PRInfo" where
  "prInfo U q getStatus p =
     (let title = prTitle p;
          (packageName, orgName) = extractPackageInfo U title;
          pr = \<lparr>Number = prNumber p, Title = title, URL = prHTMLURL p,
                Status = [], Skipped = False, SkipReason = []\<rparr>;
          pr = (if isDenied U packageName orgName (DeniedPackages q) (DeniedOrgs q) then
                  (let pr = pr\<lparr>Skipped := True\<rparr>;
                       pr = (if orgName \<noteq> []
                             then pr\<lparr>SkipReason := org_reason_loop U orgName (DeniedOrgs q)\<rparr>
                             else pr);
                       pr = (if SkipReason pr = [] \<and> packageName \<noteq> []
                             then pr\<lparr>SkipReason :=
                                    package_reason_loop U packageName (DeniedPackages q)\<rparr>
                             else pr)
                   in pr)
                else pr);
          pr = (case getStatus (Owner q) (Repo q) (prHeadSHA p) of
                  Inr state \<Rightarrow> pr\<lparr>Status := state\<rparr>
                | Inl err \<Rightarrow> pr)
      in pr)"

fun prs_loop ::
  "unicode \<Rightarrow> DependencyUpdateQuery \<Rightarrow>
   (gostring \<Rightarrow> gostring \<Rightarrow> gostring \<Rightarrow> api_error + gostring) \<Rightarrow>
   PullRequest list \<Rightarrow> PRInfo list \<Rightarrow> PRInfo list" where
  "prs_loop U q getStatus [] prs = prs"
| "prs_loop U q getStatus (p # pulls) prs =
     (if prUserID p = dependabotUserID
      then prs_loop U q getStatus pulls (prs @ [prInfo U q getStatus p])
      else prs_loop U q getStatus pulls prs)"

definition GetDependabotPRsWithDenyList ::
  "unicode \<Rightarrow> (gostring \<Rightarrow> gostring \<Rightarrow> api_error + PullRequest list) \<Rightarrow>
   (gostring \<Rightarrow> gostring \<Rightarrow> gostring \<Rightarrow> api_error + gostring) \<Rightarrow>
   DependencyUpdateQuery \<Rightarrow> api_error + PRInfo list" where
  "GetDependabotPRsWithDenyList U listPulls getStatus q =
     (case listPulls (Owner q) (Repo q) of
        Inl err \<Rightarrow> Inl err
      | Inr pulls \<Rightarrow> Inr (prs_loop U q getStatus pulls []))"

section \<open>Facts about the string functions\<close>

lemma runes_Nil [simp]: "runes [] = []"
  by (simp add: runes_def)

lemma runes_Cons [simp]: "runes (c # s) = of_char c # runes s"
  by (simp add: runes_def rune_of_def)

lemma rune_of_simp [simp]: "rune_of c = of_char c"
  by (simp add: rune_of_def)

lemma runes_append: "runes (s @ t) = runes s @ runes t"
  by (simp add: runes_def)

lemma ToLower_Nil [simp]: "ToLower U [] = []"
  by (simp add: ToLower_def)

lemma ToLower_Cons [simp]: "ToLower U (c # s) = toLower U c # ToLower U s"
  by (simp add: ToLower_def)

lemma ToLower_append [simp]: "ToLower U (s @ t) = ToLower U s @ ToLower U t"
  by (simp add: ToLower_def)

lemma ToLower_eq_Nil [simp]: "ToLower U s = [] \<longleftrightarrow> s = []"
  by (simp add: ToLower_def)

lemma Nil_eq_ToLower [simp]: "[] = ToLower U s \<longleftrightarrow> s = []"
  by (simp add: ToLower_def)

lemma length_ToLower [simp]: "length (ToLower U s) = length s"
  by (simp add: ToLower_def)

lemma EqualFold_length: "EqualFold U s t \<Longrightarrow> length s = length t"
  by (induction U s t rule: EqualFold.induct) simp_all

lemma EqualFold_Nil [simp]: "EqualFold U [] t \<longleftrightarrow> t = []"
  by (cases t) simp_all

lemma EqualFold_Nil2 [simp]: "EqualFold U s [] \<longleftrightarrow> s = []"
  by (cases s) simp_all

lemma HasPrefix_iff: "HasPrefix s p \<longleftrightarrow> prefix p s"
  by (induction s p rule: HasPrefix.induct) auto

lemma HasSuffix_iff: "HasSuffix s suf \<longleftrightarrow> suffix suf s"
  by (simp add: HasSuffix_def HasPrefix_iff suffix_to_prefix)

lemma Contains_iff: "Contains s sub \<longleftrightarrow> sublist sub s"
  by (induction s) (auto simp: HasPrefix_iff sublist_Cons_right)

lemma sublist_single [simp]: "sublist [c] s \<longleftrightarrow> c \<in> set s"
  by (induction s) (auto simp: sublist_Cons_right)

lemma Index_single:
  "Index s [c] = (if c \<in> set s then int (length (takeWhile (\<lambda>x. x \<noteq> c) s)) else - 1)"
  by (induction s) (auto simp: Let_def)

lemma take_length_takeWhile: "take (length (takeWhile P s)) s = takeWhile P s"
  by (induction s) auto

lemma keeps_at_toLower: "keeps_at U \<Longrightarrow> toLower U c = 64 \<longleftrightarrow> c = 64"
  by (simp add: keeps_at_def)

lemma at_in_ToLower: "keeps_at U \<Longrightarrow> 64 \<in> set (ToLower U s) \<longleftrightarrow> 64 \<in> set s"
  by (induction s) (auto simp: keeps_at_toLower eq_commute [of 64])

lemma takeWhile_not_at_ToLower:
  "keeps_at U \<Longrightarrow>
     takeWhile (\<lambda>x. x \<noteq> 64) (ToLower U s) = ToLower U (takeWhile (\<lambda>x. x \<noteq> 64) s)"
  by (induction s) (auto simp: keeps_at_toLower)

lemma Index_at_ToLower:
  "keeps_at U \<Longrightarrow>
     Index (ToLower U p) [64] =
       (if 64 \<in> set p then int (length (takeWhile (\<lambda>x. x \<noteq> 64) p)) else - 1)"
  by (simp add: Index_single takeWhile_not_at_ToLower at_in_ToLower)

lemma take_first_at_ToLower:
  "take (length (takeWhile (\<lambda>x. x \<noteq> 64) p)) (ToLower U p) =
     ToLower U (takeWhile (\<lambda>x. x \<noteq> (64::nat)) p)"
  by (simp add: ToLower_def take_map take_length_takeWhile)

lemma keeps_at_sample_tables: "keeps_at sample_tables"
  by (auto simp: keeps_at_def sample_tables_def ascii_lower_def)

section \<open>The deny matcher, entry by entry\<close>

text \<open>
  The matcher's answer is a disjunction over the entries: the package loop returns true at
  the first entry that matches alone, the organisation loop at the first organisation that
  is equal under case folding.
\<close>

lemma denied_packages_loop_iff:
  "denied_packages_loop U p es \<longleftrightarrow> (\<exists>e \<in> set es. denied_package_entry U p e)"
  by (induction es) auto

lemma isDenied_single: "isDenied U p org [e] [] \<longleftrightarrow> denied_package_entry U p e"
  by (simp add: isDenied_def)

lemma denied_orgs_loop_iff:
  "denied_orgs_loop U org ds \<longleftrightarrow> (\<exists>d \<in> set ds. EqualFold U org d)"
  by (induction ds) auto

lemma isDenied_iff:
  "isDenied U p org es ds \<longleftrightarrow>
     (\<exists>e \<in> set es. isDenied U p org [e] []) \<or> (\<exists>d \<in> set ds. EqualFold U org d)"
  by (simp add: isDenied_def denied_packages_loop_iff denied_orgs_loop_iff)

lemma first_at_split:
  assumes "keeps_at U" and "64 \<notin> set e"
  shows "(64 \<in> set p \<and> takeWhile (\<lambda>x. x \<noteq> 64) p \<noteq> [] \<and>
     ToLower U (takeWhile (\<lambda>x. x \<noteq> 64) p) = ToLower U e) \<longleftrightarrow>
    (\<exists>base ver. base \<noteq> [] \<and> p = base @ 64 # ver \<and> ToLower U base = ToLower U e)"
    (is "?L \<longleftrightarrow> ?R")
proof
  assume l: ?L
  let ?b = "takeWhile (\<lambda>x. x \<noteq> 64) p"
  from l have "dropWhile (\<lambda>x. x \<noteq> 64) p \<noteq> []" by simp
  moreover have "hd (dropWhile (\<lambda>x. x \<noteq> 64) p) = 64"
    using l hd_dropWhile [of "\<lambda>x. x \<noteq> 64" p] by auto
  ultimately obtain ver where "dropWhile (\<lambda>x. x \<noteq> 64) p = 64 # ver"
    by (cases "dropWhile (\<lambda>x. x \<noteq> 64) p") auto
  then have "p = ?b @ 64 # ver"
    using takeWhile_dropWhile_id [of "\<lambda>x. x \<noteq> 64" p] by simp
  with l show ?R by blast
next
  assume ?R
  then obtain base ver where b: "base \<noteq> []" "p = base @ 64 # ver"
    "ToLower U base = ToLower U e" by blast
  have "64 \<notin> set (ToLower U e)" using assms by (simp add: at_in_ToLower)
  then have "64 \<notin> set (ToLower U base)" using b(3) by simp
  then have nb: "64 \<notin> set base" using assms(1) by (simp add: at_in_ToLower)
  then have "takeWhile (\<lambda>x. x \<noteq> 64) p = base"
    using b(2) by (auto simp: takeWhile_tail)
  with b show ?L by simp
qed

lemma denied_package_entry_versioned:
  assumes "42 \<notin> set e" and "64 \<in> set e"
  shows "denied_package_entry U p e \<longleftrightarrow>
     EqualFold U p e \<or> sublist (ToLower U e) (ToLower U p)"
  using assms by (auto simp: denied_package_entry_def Contains_iff)

lemma denied_package_entry_plain:
  assumes "42 \<notin> set e" and "64 \<notin> set e" and "keeps_at U"
  shows "denied_package_entry U p e \<longleftrightarrow>
    EqualFold U p e \<or> ToLower U p = ToLower U e \<or>
    (\<exists>base ver. base \<noteq> [] \<and> p = base @ 64 # ver \<and> ToLower U base = ToLower U e)"
proof -
  have "denied_package_entry U p e \<longleftrightarrow>
    EqualFold U p e \<or> ToLower U p = ToLower U e \<or>
    (64 \<in> set p \<and> takeWhile (\<lambda>x. x \<noteq> 64) p \<noteq> [] \<and>
     ToLower U (takeWhile (\<lambda>x. x \<noteq> 64) p) = ToLower U e)"
    using assms
    by (auto simp: denied_package_entry_def Contains_iff Index_at_ToLower
        Let_def take_first_at_ToLower)
  then show ?thesis
    using first_at_split [OF assms(3) assms(2), of p] by simp
qed

lemma denied_package_entry_star:
  assumes "42 \<in> set e"
  shows "denied_package_entry U p e \<longleftrightarrow>
     (ToLower U e = runes ''*alpha*'' \<and> sublist (runes ''alpha'') (ToLower U p)) \<or>
     (ToLower U e = runes ''*beta*'' \<and> sublist (runes ''beta'') (ToLower U p)) \<or>
     (ToLower U e = runes ''*rc*'' \<and> sublist (runes ''rc'') (ToLower U p)) \<or>
     (ToLower U e = runes ''*/v0'' \<and> suffix (runes ''/v0'') (ToLower U p))"
  using assms
  by (simp add: denied_package_entry_def Let_def Contains_iff HasSuffix_iff)

section \<open>Entries without a wildcard\<close>

text \<open>
  C1. For an entry \<open>e\<close> without \<open>*\<close>, the matcher called with the one entry and no denied
  organisation answers as follows. If \<open>e\<close> contains \<open>@\<close>: true exactly when the package
  name equals the entry under case folding (\<^verbatim>\<open>strings.EqualFold\<close>, which the source tries
  first) or the lower-cased package name contains the lower-cased entry. If \<open>e\<close> contains
  no \<open>@\<close>: true exactly when the two are equal under case folding or after lower-casing,
  or the package name is \<open>base @ version\<close> with a non-empty \<open>base\<close> whose lower-casing is
  that of the entry (the source cuts the lower-cased name at its first \<open>@\<close> and asks for
  an index greater than 0). The plain entry \<open>github.com/aws/aws-sdk-go\<close> does not match the
  package \<open>github.com/aws/aws-sdk-go-v2\<close>.
\<close>

theorem isDenied_entry_without_star:
  "(rune_of CHR ''*'' \<notin> set e \<and> rune_of CHR ''@'' \<in> set e \<longrightarrow>
      (isDenied U p org [e] [] \<longleftrightarrow>
         EqualFold U p e \<or> sublist (ToLower U e) (ToLower U p))) \<and>
   (rune_of CHR ''*'' \<notin> set e \<and> rune_of CHR ''@'' \<notin> set e \<and> keeps_at U \<longrightarrow>
      (isDenied U p org [e] [] \<longleftrightarrow>
         EqualFold U p e \<or> ToLower U p = ToLower U e \<or>
         (\<exists>base ver. base \<noteq> [] \<and> p = base @ rune_of CHR ''@'' # ver \<and>
                      ToLower U base = ToLower U e))) \<and>
   (keeps_at U \<longrightarrow>
      \<not> isDenied U (runes ''github.com/aws/aws-sdk-go-v2'') org
           [runes ''github.com/aws/aws-sdk-go''] [])"
proof (intro conjI impI)
  assume "rune_of CHR ''*'' \<notin> set e \<and> rune_of CHR ''@'' \<in> set e"
  then show "isDenied U p org [e] [] \<longleftrightarrow>
         EqualFold U p e \<or> sublist (ToLower U e) (ToLower U p)"
    using denied_package_entry_versioned [of e U p] by (simp add: isDenied_single)
next
  assume "rune_of CHR ''*'' \<notin> set e \<and> rune_of CHR ''@'' \<notin> set e \<and> keeps_at U"
  then show "isDenied U p org [e] [] \<longleftrightarrow>
         EqualFold U p e \<or> ToLower U p = ToLower U e \<or>
         (\<exists>base ver. base \<noteq> [] \<and> p = base @ rune_of CHR ''@'' # ver \<and>
                      ToLower U base = ToLower U e)"
    using denied_package_entry_plain [of e U p] by (simp add: isDenied_single)
next
  assume k: "keeps_at U"
  define p where "p = runes ''github.com/aws/aws-sdk-go-v2''"
  define e where "e = runes ''github.com/aws/aws-sdk-go''"
  have s: "42 \<notin> set e" "64 \<notin> set e" "64 \<notin> set p" "length p \<noteq> length e"
    by (simp_all add: p_def e_def)
  have "\<not> EqualFold U p e" using s(4) EqualFold_length [of U p e] by blast
  moreover have "ToLower U p \<noteq> ToLower U e"
    using s(4) length_ToLower [of U p] length_ToLower [of U e] by metis
  moreover have "\<not> (\<exists>base ver. base \<noteq> [] \<and> p = base @ 64 # ver \<and>
      ToLower U base = ToLower U e)"
    using s(3) by auto
  ultimately have "\<not> denied_package_entry U p e"
    using denied_package_entry_plain [OF s(1) s(2) k, of p] by simp
  then show "\<not> isDenied U (runes ''github.com/aws/aws-sdk-go-v2'') org
           [runes ''github.com/aws/aws-sdk-go''] []"
    unfolding p_def e_def isDenied_single .
qed

theorem isDenied_entry_without_star_witness:
  "rune_of CHR ''*'' \<notin> set (runes ''github.com/gin-gonic/gin'') \<and>
   rune_of CHR ''@'' \<notin> set (runes ''github.com/gin-gonic/gin'') \<and>
   keeps_at sample_tables \<and>
   isDenied sample_tables (runes ''github.com/Gin-Gonic/gin@v1.7.0'') []
     [runes ''github.com/gin-gonic/gin''] [] \<and>
   rune_of CHR ''*'' \<notin> set (runes ''pkg@v1'') \<and>
   rune_of CHR ''@'' \<in> set (runes ''pkg@v1'') \<and>
   isDenied sample_tables (runes ''Pkg@v1.7.0'') [] [runes ''pkg@v1''] []"
proof -
  define e where "e = runes ''github.com/gin-gonic/gin''"
  define p where "p = runes ''github.com/Gin-Gonic/gin@v1.7.0''"
  define b where "b = runes ''github.com/Gin-Gonic/gin''"
  define v where "v = runes ''v1.7.0''"
  define e2 where "e2 = runes ''pkg@v1''"
  define p2 where "p2 = runes ''Pkg@v1.7.0''"
  have a: "rune_of CHR ''*'' \<notin> set e" "rune_of CHR ''@'' \<notin> set e"
    "rune_of CHR ''*'' \<notin> set e2" "rune_of CHR ''@'' \<in> set e2"
    by (simp_all add: e_def e2_def)
  have c: "b \<noteq> []" "p = b @ rune_of CHR ''@'' # v"
    by (simp_all add: p_def b_def v_def)
  have d: "ToLower sample_tables b = ToLower sample_tables e"
    unfolding b_def e_def by code_simp
  have g: "ToLower sample_tables p2 = ToLower sample_tables e2 @ runes ''.7.0''"
    unfolding p2_def e2_def by code_simp
  have "\<exists>base ver. base \<noteq> [] \<and> p = base @ rune_of CHR ''@'' # ver \<and>
          ToLower sample_tables base = ToLower sample_tables e"
    using c d by blast
  then have "isDenied sample_tables p [] [e] []"
    using a(1,2) keeps_at_sample_tables
      isDenied_entry_without_star [of e sample_tables p "[]"]
    by blast
  moreover have "sublist (ToLower sample_tables e2) (ToLower sample_tables p2)"
    unfolding g using sublist_appendI [of "ToLower sample_tables e2" "[]" "runes ''.7.0''"]
    by simp
  then have "isDenied sample_tables p2 [] [e2] []"
    using a(3,4) isDenied_entry_without_star [of e2 sample_tables p2 "[]"]
    by blast
  ultimately show ?thesis
    using a keeps_at_sample_tables unfolding e_def p_def e2_def p2_def by blast
qed

text \<open>
  Two inputs at which the matcher does not answer as the lower-casing alone would say.
  The entry \<open>s@1\<close> denies the package whose name is the long s (U+017F) followed by \<open>@1\<close>:
  the two are equal under case folding, though the lower-cased name does not contain the
  lower-cased entry. And the empty entry does not deny the name \<open>@x\<close>, which is the empty
  base followed by \<open>@x\<close>.
\<close>

theorem isDenied_fold_and_empty_base_counterexample:
  "rune_of CHR ''*'' \<notin> set (runes ''s@1'') \<and> rune_of CHR ''@'' \<in> set (runes ''s@1'') \<and>
   isDenied sample_tables (0x17F # runes ''@1'') [] [runes ''s@1''] [] \<and>
   \<not> sublist (ToLower sample_tables (runes ''s@1''))
       (ToLower sample_tables (0x17F # runes ''@1'')) \<and>
   rune_of CHR ''*'' \<notin> set [] \<and> rune_of CHR ''@'' \<notin> set [] \<and>
   runes ''@x'' = [] @ rune_of CHR ''@'' # runes ''x'' \<and>
   ToLower sample_tables [] = ToLower sample_tables [] \<and>
   \<not> isDenied sample_tables (runes ''@x'') [] [[]] []"
proof -
  have "isDenied sample_tables (0x17F # runes ''@1'') [] [runes ''s@1''] []"
    by code_simp
  moreover have "\<not> sublist (ToLower sample_tables (runes ''s@1''))
       (ToLower sample_tables (0x17F # runes ''@1''))"
    by code_simp
  moreover have "\<not> isDenied sample_tables (runes ''@x'') [] [[]] []"
    by code_simp
  ultimately show ?thesis by simp
qed

section \<open>Entries with a wildcard\<close>

text \<open>
  C2. An entry \<open>e\<close> that contains \<open>*\<close> is lower-cased and compared with the four patterns
  \<open>*alpha*\<close>, \<open>*beta*\<close>, \<open>*rc*\<close> and \<open>*/v0\<close>; it matches exactly when its lower-casing is
  one of them and the lower-cased package name contains \<open>alpha\<close>, \<open>beta\<close>, \<open>rc\<close>, or ends
  with \<open>/v0\<close>, respectively. Every other entry with a \<open>*\<close> matches no package name: the
  rules for exact and versioned entries are not tried on it.
\<close>

theorem isDenied_wildcard_entry:
  "rune_of CHR ''*'' \<in> set e \<longrightarrow>
     (isDenied U p org [e] [] \<longleftrightarrow>
        (ToLower U e = runes ''*alpha*'' \<and> sublist (runes ''alpha'') (ToLower U p)) \<or>
        (ToLower U e = runes ''*beta*'' \<and> sublist (runes ''beta'') (ToLower U p)) \<or>
        (ToLower U e = runes ''*rc*'' \<and> sublist (runes ''rc'') (ToLower U p)) \<or>
        (ToLower U e = runes ''*/v0'' \<and> suffix (runes ''/v0'') (ToLower U p)))"
  using denied_package_entry_star [of e U p] by (simp add: isDenied_single)

theorem isDenied_wildcard_entry_witness:
  "rune_of CHR ''*'' \<in> set (runes ''*rc*'') \<and>
   isDenied sample_tables (runes ''github.com/foo/bar-RC1'') [] [runes ''*rc*''] [] \<and>
   rune_of CHR ''*'' \<in> set (runes ''foo*'') \<and>
   \<not> isDenied sample_tables (runes ''foo*'') [] [runes ''foo*''] []"
proof -
  define e1 where "e1 = runes ''*rc*''"
  define p1 where "p1 = runes ''github.com/foo/bar-RC1''"
  define e2 where "e2 = runes ''foo*''"
  have a: "rune_of CHR ''*'' \<in> set e1" by (simp add: e1_def)
  have b: "ToLower sample_tables e1 = runes ''*rc*''" unfolding e1_def by code_simp
  have c: "ToLower sample_tables p1 = runes ''github.com/foo/bar-'' @ runes ''rc'' @ runes ''1''"
    unfolding p1_def by code_simp
  have d: "sublist (runes ''rc'') (ToLower sample_tables p1)"
    unfolding c by (rule sublist_appendI)
  have e: "rune_of CHR ''*'' \<in> set e2" by (simp add: e2_def)
  have f: "ToLower sample_tables e2 \<noteq> runes ''*alpha*''"
    "ToLower sample_tables e2 \<noteq> runes ''*beta*''"
    "ToLower sample_tables e2 \<noteq> runes ''*rc*''"
    "ToLower sample_tables e2 \<noteq> runes ''*/v0''"
    unfolding e2_def by code_simp+
  have "isDenied sample_tables p1 [] [e1] []"
    using a b d isDenied_wildcard_entry [of e1 sample_tables p1 "[]"] by blast
  moreover have "\<not> isDenied sample_tables e2 [] [e2] []"
    using e f isDenied_wildcard_entry [of e2 sample_tables e2 "[]"] by blast
  ultimately show ?thesis using a e unfolding e1_def p1_def e2_def by blast
qed

text \<open>
  The entry \<open>*ALPHA*\<close> is none of the four patterns as written, and it matches the package
  \<open>alpha\<close>: the comparison is made on the lower-cased entry.
\<close>

theorem isDenied_wildcard_case_counterexample:
  "rune_of CHR ''*'' \<in> set (runes ''*ALPHA*'') \<and>
   runes ''*ALPHA*'' \<noteq> runes ''*alpha*'' \<and> runes ''*ALPHA*'' \<noteq> runes ''*beta*'' \<and>
   runes ''*ALPHA*'' \<noteq> runes ''*rc*'' \<and> runes ''*ALPHA*'' \<noteq> runes ''*/v0'' \<and>
   isDenied sample_tables (runes ''alpha'') [] [runes ''*ALPHA*''] []"
proof -
  have "isDenied sample_tables (runes ''alpha'') [] [runes ''*ALPHA*''] []" by code_simp
  then show ?thesis by simp
qed

section \<open>Entries with an at sign\<close>

text \<open>
  C9. An entry \<open>e\<close> of the denied packages that contains \<open>@\<close> and no \<open>*\<close> denies every
  package name whose lower-casing contains the lower-casing of \<open>e\<close>, whatever the other
  entries and the organisation are; so the scoped name \<open>@types/node\<close> as an entry also
  denies the package \<open>@types/node-fetch\<close>.
\<close>

theorem isDenied_at_entry_contained:
  "(rune_of CHR ''@'' \<in> set e \<and> rune_of CHR ''*'' \<notin> set e \<and> e \<in> set es \<and>
    sublist (ToLower U e) (ToLower U p) \<longrightarrow> isDenied U p org es ds)
   \<and> isDenied U (runes ''@types/node-fetch'') org [runes ''@types/node''] ds"
proof
  show "rune_of CHR ''@'' \<in> set e \<and> rune_of CHR ''*'' \<notin> set e \<and> e \<in> set es \<and>
    sublist (ToLower U e) (ToLower U p) \<longrightarrow> isDenied U p org es ds"
    using denied_package_entry_versioned [of e U p] isDenied_iff [of U p org es ds]
    by (auto simp: isDenied_single)
  define e where "e = runes ''@types/node''"
  have a: "64 \<in> set e" and b: "42 \<notin> set e"
    by (simp_all add: e_def)
  have c: "runes ''@types/node-fetch'' = e @ runes ''-fetch''"
    by (simp add: e_def)
  have "sublist (ToLower U e) (ToLower U (e @ runes ''-fetch''))"
    using sublist_appendI [of "ToLower U e" "[]" "ToLower U (runes ''-fetch'')"] by simp
  then have "denied_package_entry U (runes ''@types/node-fetch'') e"
    unfolding c using a b denied_package_entry_versioned [of e U "e @ runes ''-fetch''"]
    by blast
  then show "isDenied U (runes ''@types/node-fetch'') org [runes ''@types/node''] ds"
    by (simp add: isDenied_def e_def)
qed

theorem isDenied_at_entry_contained_witness:
  "rune_of CHR ''@'' \<in> set (runes ''pkg@v1'') \<and> rune_of CHR ''*'' \<notin> set (runes ''pkg@v1'') \<and>
   runes ''pkg@v1'' \<in> set [runes ''left-pad'', runes ''pkg@v1''] \<and>
   sublist (ToLower sample_tables (runes ''pkg@v1''))
     (ToLower sample_tables (runes ''Pkg@v1.7.0'')) \<and>
   isDenied sample_tables (runes ''Pkg@v1.7.0'') (runes ''acme'')
     [runes ''left-pad'', runes ''pkg@v1''] [runes ''datadog'']"
proof -
  define e where "e = runes ''pkg@v1''"
  define p where "p = runes ''Pkg@v1.7.0''"
  have a: "rune_of CHR ''@'' \<in> set e" and b: "rune_of CHR ''*'' \<notin> set e"
    and m: "e \<in> set [runes ''left-pad'', e]"
    by (simp_all add: e_def)
  have c: "ToLower sample_tables p = ToLower sample_tables e @ runes ''.7.0''"
    unfolding p_def e_def by code_simp
  have d: "sublist (ToLower sample_tables e) (ToLower sample_tables p)"
    unfolding c using sublist_appendI [of "ToLower sample_tables e" "[]" "runes ''.7.0''"]
    by simp
  show ?thesis
    using a b m d isDenied_at_entry_contained
      [of e "[runes ''left-pad'', e]" sample_tables p "runes ''acme''" "[runes ''datadog'']"]
    unfolding e_def p_def by blast
qed

text \<open>
  An entry that contains both \<open>@\<close> and \<open>*\<close> takes the wildcard branch and is skipped: the
  entry \<open>@types/*\<close> does not deny the package name \<open>@types/*\<close>, which contains it.
\<close>

theorem isDenied_at_star_counterexample:
  "rune_of CHR ''@'' \<in> set (runes ''@types/*'') \<and>
   sublist (ToLower sample_tables (runes ''@types/*''))
     (ToLower sample_tables (runes ''@types/*'')) \<and>
   \<not> isDenied sample_tables (runes ''@types/*'') (runes ''types'') [runes ''@types/*''] []"
proof -
  have "\<not> isDenied sample_tables (runes ''@types/*'') (runes ''types'')
      [runes ''@types/*''] []"
    by code_simp
  then show ?thesis by simp
qed

section \<open>Facts about the merge\<close>

lemma removeDuplicates_loop_result:
  "removeDuplicates_loop U seen result xs = result @ removeDuplicates_loop U seen [] xs"
proof (induction xs arbitrary: seen result)
  case Nil
  show ?case by simp
next
  case (Cons x xs)
  let ?n = "ToLower U (TrimSpace U x)"
  show ?case
  proof (cases "?n \<noteq> [] \<and> \<not> seen ?n")
    case True
    have "removeDuplicates_loop U seen result (x # xs) =
        removeDuplicates_loop U (seen(?n := True)) (result @ [x]) xs"
      using True by (simp add: Let_def)
    also have "\<dots> = (result @ [x]) @ removeDuplicates_loop U (seen(?n := True)) [] xs"
      by (rule Cons.IH)
    also have "\<dots> = result @ ([x] @ removeDuplicates_loop U (seen(?n := True)) [] xs)"
      by simp
    also have "[x] @ removeDuplicates_loop U (seen(?n := True)) [] xs =
        removeDuplicates_loop U (seen(?n := True)) [x] xs"
      by (rule Cons.IH [symmetric])
    also have "removeDuplicates_loop U (seen(?n := True)) [x] xs =
        removeDuplicates_loop U seen [] (x # xs)"
      using True by (simp add: Let_def)
    finally show ?thesis .
  next
    case False
    have "removeDuplicates_loop U seen result (x # xs) = removeDuplicates_loop U seen result xs"
      using False by (auto simp: Let_def)
    also have "\<dots> = result @ removeDuplicates_loop U seen [] xs"
      by (rule Cons.IH)
    also have "removeDuplicates_loop U seen [] xs = removeDuplicates_loop U seen [] (x # xs)"
      using False by (auto simp: Let_def)
    finally show ?thesis .
  qed
qed

lemma removeDuplicates_loop_Cons:
  "removeDuplicates_loop U seen [] (x # xs) =
     (if normalized U x \<noteq> [] \<and> \<not> seen (normalized U x)
      then x # removeDuplicates_loop U (seen(normalized U x := True)) [] xs
      else removeDuplicates_loop U seen [] xs)"
  using removeDuplicates_loop_result [of U "seen(normalized U x := True)" "[x]" xs]
  by (simp add: Let_def normalized_def)

declare removeDuplicates_loop.simps(2) [simp del]

lemma loop_kept_unseen:
  "e \<in> set (removeDuplicates_loop U seen [] xs) \<Longrightarrow>
     e \<in> set xs \<and> normalized U e \<noteq> [] \<and> \<not> seen (normalized U e)"
proof (induction xs arbitrary: seen)
  case Nil
  then show ?case by simp
next
  case (Cons x xs)
  show ?case
  proof (cases "normalized U x \<noteq> [] \<and> \<not> seen (normalized U x)")
    case True
    with Cons.prems have
      "e = x \<or> e \<in> set (removeDuplicates_loop U (seen(normalized U x := True)) [] xs)"
      by (simp add: removeDuplicates_loop_Cons)
    then show ?thesis
    proof
      assume "e = x"
      with True show ?thesis by simp
    next
      assume "e \<in> set (removeDuplicates_loop U (seen(normalized U x := True)) [] xs)"
      from Cons.IH [OF this] show ?thesis by (auto split: if_splits)
    qed
  next
    case False
    with Cons.prems have "e \<in> set (removeDuplicates_loop U seen [] xs)"
      by (simp add: removeDuplicates_loop_Cons)
    from Cons.IH [OF this] show ?thesis by simp
  qed
qed

lemma loop_subseq: "subseq (removeDuplicates_loop U seen [] xs) xs"
  by (induction xs arbitrary: seen)
    (auto simp: removeDuplicates_loop_Cons intro: subseq_Cons')

lemma loop_distinct: "distinct (map (normalized U) (removeDuplicates_loop U seen [] xs))"
proof (induction xs arbitrary: seen)
  case Nil
  show ?case by simp
next
  case (Cons x xs)
  have "normalized U x \<notin>
      normalized U ` set (removeDuplicates_loop U (seen(normalized U x := True)) [] xs)"
    using loop_kept_unseen [of _ U "seen(normalized U x := True)" xs] by fastforce
  then show ?case
    using Cons.IH by (simp add: removeDuplicates_loop_Cons)
qed

lemma loop_represented:
  "y \<in> set xs \<Longrightarrow> normalized U y \<noteq> [] \<Longrightarrow> \<not> seen (normalized U y) \<Longrightarrow>
     normalized U y \<in> normalized U ` set (removeDuplicates_loop U seen [] xs)"
proof (induction xs arbitrary: seen)
  case Nil
  then show ?case by simp
next
  case (Cons x xs)
  show ?case
  proof (cases "normalized U x = normalized U y")
    case True
    then have "removeDuplicates_loop U seen [] (x # xs) =
        x # removeDuplicates_loop U (seen(normalized U x := True)) [] xs"
      using Cons.prems by (simp add: removeDuplicates_loop_Cons)
    then show ?thesis using True by (simp add: image_iff)
  next
    case False
    then have y: "y \<in> set xs" using Cons.prems(1) by auto
    show ?thesis
    proof (cases "normalized U x \<noteq> [] \<and> \<not> seen (normalized U x)")
      case keep: True
      define seen' where "seen' = seen(normalized U x := True)"
      have eq: "removeDuplicates_loop U seen [] (x # xs) =
          x # removeDuplicates_loop U seen' [] xs"
        using keep by (simp add: removeDuplicates_loop_Cons seen'_def)
      have "\<not> seen' (normalized U y)"
        using False Cons.prems(3) by (simp add: seen'_def)
      from Cons.IH [of seen', OF y Cons.prems(2) this]
      show ?thesis unfolding eq by simp
    next
      case skip: False
      from Cons.IH [of seen, OF y Cons.prems(2) Cons.prems(3)] show ?thesis
        using skip by (auto simp: removeDuplicates_loop_Cons)
    qed
  qed
qed

lemma loop_classes:
  "normalized U ` set (removeDuplicates_loop U seen [] xs) =
     {n \<in> normalized U ` set xs. n \<noteq> [] \<and> \<not> seen n}"
proof (intro set_eqI iffI)
  fix n assume "n \<in> normalized U ` set (removeDuplicates_loop U seen [] xs)"
  then obtain e where "e \<in> set (removeDuplicates_loop U seen [] xs)" "n = normalized U e"
    by blast
  then show "n \<in> {n \<in> normalized U ` set xs. n \<noteq> [] \<and> \<not> seen n}"
    using loop_kept_unseen [of e U seen xs] by simp
next
  fix n assume "n \<in> {n \<in> normalized U ` set xs. n \<noteq> [] \<and> \<not> seen n}"
  then obtain y where "y \<in> set xs" "n = normalized U y" "n \<noteq> []" "\<not> seen n"
    by blast
  then show "n \<in> normalized U ` set (removeDuplicates_loop U seen [] xs)"
    using loop_represented [of y xs U seen] by simp
qed

lemma loop_fixed:
  "distinct (map (normalized U) ys) \<Longrightarrow>
   (\<And>y. y \<in> set ys \<Longrightarrow> normalized U y \<noteq> [] \<and> \<not> seen (normalized U y)) \<Longrightarrow>
   removeDuplicates_loop U seen [] ys = ys"
proof (induction ys arbitrary: seen)
  case Nil
  show ?case by simp
next
  case (Cons y ys)
  have "removeDuplicates_loop U (seen(normalized U y := True)) [] ys = ys"
  proof (rule Cons.IH)
    show "distinct (map (normalized U) ys)" using Cons.prems(1) by simp
  next
    fix z assume z: "z \<in> set ys"
    then have "normalized U z \<in> set (map (normalized U) ys)" by simp
    moreover have "normalized U y \<notin> set (map (normalized U) ys)"
      using Cons.prems(1) by simp
    ultimately have "normalized U z \<noteq> normalized U y" by metis
    then show "normalized U z \<noteq> [] \<and> \<not> (seen(normalized U y := True)) (normalized U z)"
      using z Cons.prems(2) [of z] by simp
  qed
  then show ?case
    using Cons.prems(2) [of y] by (simp add: removeDuplicates_loop_Cons)
qed

lemma removeDuplicates_idem:
  "removeDuplicates U (removeDuplicates U xs) = removeDuplicates U xs"
  unfolding removeDuplicates_def
  using loop_kept_unseen [of _ U "\<lambda>_. False" xs]
  by (intro loop_fixed loop_distinct) simp

text \<open>
  The loop over a list with one more entry at its end: the entry is kept exactly when its
  trimmed lower-casing is not empty and is that of no earlier entry.
\<close>

lemma loop_append:
  "removeDuplicates_loop U seen [] (xs @ ys) =
     removeDuplicates_loop U seen [] xs @
     removeDuplicates_loop U (\<lambda>n. seen n \<or> (n \<noteq> [] \<and> n \<in> normalized U ` set xs)) [] ys"
proof (induction xs arbitrary: seen)
  case Nil
  show ?case by simp
next
  case (Cons x xs)
  show ?case
  proof (cases "normalized U x \<noteq> [] \<and> \<not> seen (normalized U x)")
    case True
    define seen' where "seen' = seen(normalized U x := True)"
    have f: "(\<lambda>n. seen' n \<or> (n \<noteq> [] \<and> n \<in> normalized U ` set xs)) =
        (\<lambda>n. seen n \<or> (n \<noteq> [] \<and> n \<in> normalized U ` set (x # xs)))"
      using True by (auto simp: seen'_def fun_eq_iff)
    have k: "removeDuplicates_loop U seen [] (x # zs) = x # removeDuplicates_loop U seen' [] zs"
      for zs
      using True by (simp add: removeDuplicates_loop_Cons seen'_def)
    have "removeDuplicates_loop U seen [] ((x # xs) @ ys) =
        x # removeDuplicates_loop U seen' [] (xs @ ys)"
      using k [of "xs @ ys"] by simp
    also have "\<dots> = (x # removeDuplicates_loop U seen' [] xs) @
        removeDuplicates_loop U
          (\<lambda>n. seen n \<or> (n \<noteq> [] \<and> n \<in> normalized U ` set (x # xs))) [] ys"
      unfolding Cons.IH [of seen'] f by simp
    finally show ?thesis unfolding k [of xs] .
  next
    case False
    have f: "(\<lambda>n. seen n \<or> (n \<noteq> [] \<and> n \<in> normalized U ` set xs)) =
        (\<lambda>n. seen n \<or> (n \<noteq> [] \<and> n \<in> normalized U ` set (x # xs)))"
      using False by (auto simp: fun_eq_iff)
    have "removeDuplicates_loop U seen [] ((x # xs) @ ys) =
        removeDuplicates_loop U seen [] (xs @ ys)"
      using False by (auto simp: removeDuplicates_loop_Cons)
    also have "\<dots> = removeDuplicates_loop U seen [] xs @
        removeDuplicates_loop U
          (\<lambda>n. seen n \<or> (n \<noteq> [] \<and> n \<in> normalized U ` set (x # xs))) [] ys"
      unfolding Cons.IH [of seen] f by simp
    also have "removeDuplicates_loop U seen [] xs = removeDuplicates_loop U seen [] (x # xs)"
      using False by (auto simp: removeDuplicates_loop_Cons)
    finally show ?thesis .
  qed
qed

lemma removeDuplicates_snoc:
  "removeDuplicates U (xs @ [x]) =
     removeDuplicates U xs @
     (if normalized U x \<noteq> [] \<and> normalized U x \<notin> normalized U ` set xs then [x] else [])"
  unfolding removeDuplicates_def loop_append [of U "\<lambda>_. False" xs "[x]"]
  by (simp add: removeDuplicates_loop_Cons)

lemma first_occurrence_snoc:
  "i < length xs \<Longrightarrow> first_occurrence U (xs @ [x]) i = first_occurrence U xs i"
  by (simp add: first_occurrence_def nth_append)

lemma first_occurrence_last:
  "first_occurrence U (xs @ [x]) (length xs) \<longleftrightarrow>
     normalized U x \<noteq> [] \<and> normalized U x \<notin> normalized U ` set xs"
  by (simp add: first_occurrence_def)

lemma removeDuplicates_closed_form:
  "removeDuplicates U xs =
     map (\<lambda>i. xs ! i) (filter (first_occurrence U xs) [0..<length xs])"
proof (induction xs rule: rev_induct)
  case Nil
  show ?case by (simp add: removeDuplicates_def)
next
  case (snoc x xs)
  have f: "filter (first_occurrence U (xs @ [x])) [0..<length xs] =
      filter (first_occurrence U xs) [0..<length xs]"
    by (rule filter_cong) (simp_all add: first_occurrence_snoc)
  have m: "map (\<lambda>i. (xs @ [x]) ! i) (filter (first_occurrence U xs) [0..<length xs]) =
      map (\<lambda>i. xs ! i) (filter (first_occurrence U xs) [0..<length xs])"
    by (rule map_cong) (simp_all add: nth_append)
  show ?case
    unfolding removeDuplicates_snoc snoc.IH
    using f m by (simp add: first_occurrence_last)
qed

lemma removeDuplicates_deduplicated: "deduplicated U xs (removeDuplicates U xs)"
  unfolding deduplicated_def
proof (intro conjI ballI)
  show "removeDuplicates U xs =
      map (\<lambda>i. xs ! i) (filter (first_occurrence U xs) [0..<length xs])"
    by (rule removeDuplicates_closed_form)
  show "subseq (removeDuplicates U xs) xs"
    unfolding removeDuplicates_def by (rule loop_subseq)
  show "distinct (map (normalized U) (removeDuplicates U xs))"
    unfolding removeDuplicates_def by (rule loop_distinct)
  show "normalized U ` set (removeDuplicates U xs) = normalized U ` set xs - {[]}"
    unfolding removeDuplicates_def by (auto simp: loop_classes)
next
  fix e assume "e \<in> set (removeDuplicates U xs)"
  then show "TrimSpace U e \<noteq> []"
    unfolding removeDuplicates_def
    using loop_kept_unseen [of e U "\<lambda>_. False" xs] by (auto simp: normalized_def)
qed

lemma DeniedPackages_buildQuery:
  "DeniedPackages (buildQuery U cfg owner repo) =
     removeDuplicates U (getStringSlice cfg (runes ''global.denied_packages'') @
       getStringSlice cfg
         (runes ''repositories.'' @ owner @ runes ''/'' @ repo @ runes ''.denied_packages''))"
  by (simp add: buildQuery_def Let_def)

lemma DeniedOrgs_buildQuery:
  "DeniedOrgs (buildQuery U cfg owner repo) =
     removeDuplicates U (getStringSlice cfg (runes ''global.denied_orgs'') @
       getStringSlice cfg
         (runes ''repositories.'' @ owner @ runes ''/'' @ repo @ runes ''.denied_orgs''))"
  by (simp add: buildQuery_def Let_def)

lemma Owner_Repo_buildQuery:
  "Owner (buildQuery U cfg owner repo) = owner \<and> Repo (buildQuery U cfg owner repo) = repo"
  by (simp add: buildQuery_def Let_def)

section \<open>The merge is idempotent\<close>

text \<open>
  C7. The merge is idempotent. Let a second configuration hold the merged lists of a
  repository as its global lists (the result of merging a global policy with an override)
  and no lists for the repository (the empty override). Then \<^verbatim>\<open>runCheck\<close> builds the same
  query from it: the same denied packages and the same denied organisations.
\<close>

theorem buildQuery_remerge_idempotent:
  assumes "getStringSlice cfg' (runes ''global.denied_packages'') =
      DeniedPackages (buildQuery U cfg owner repo)"
    and "getStringSlice cfg' (runes ''global.denied_orgs'') =
      DeniedOrgs (buildQuery U cfg owner repo)"
    and "getStringSlice cfg'
      (runes ''repositories.'' @ owner @ runes ''/'' @ repo @ runes ''.denied_packages'') = []"
    and "getStringSlice cfg'
      (runes ''repositories.'' @ owner @ runes ''/'' @ repo @ runes ''.denied_orgs'') = []"
  shows "buildQuery U cfg' owner repo = buildQuery U cfg owner repo"
proof -
  have "DeniedPackages (buildQuery U cfg' owner repo) =
      DeniedPackages (buildQuery U cfg owner repo)"
    unfolding DeniedPackages_buildQuery [of U cfg'] assms(1) assms(3)
    by (simp add: DeniedPackages_buildQuery removeDuplicates_idem)
  moreover
  have "DeniedOrgs (buildQuery U cfg' owner repo) = DeniedOrgs (buildQuery U cfg owner repo)"
    unfolding DeniedOrgs_buildQuery [of U cfg'] assms(2) assms(4)
    by (simp add: DeniedOrgs_buildQuery removeDuplicates_idem)
  ultimately show ?thesis
    using Owner_Repo_buildQuery [of U cfg owner repo]
      Owner_Repo_buildQuery [of U cfg' owner repo]
    by (intro DependencyUpdateQuery.equality) simp_all
qed

theorem buildQuery_remerge_idempotent_witness:
  "getStringSlice
     (map_of [(runes ''global.denied_packages'', [runes ''Left-Pad'', runes ''pkg@v1'']),
              (runes ''global.denied_orgs'', [runes ''DataDog''])])
     (runes ''global.denied_packages'') =
   DeniedPackages (buildQuery sample_tables
     (map_of [(runes ''global.denied_packages'',
                 [runes ''Left-Pad'', runes '' left-pad'', []]),
              (runes ''global.denied_orgs'', [runes ''DataDog'']),
              (runes ''repositories.o/r.denied_packages'',
                 [runes ''pkg@v1'', runes ''LEFT-PAD'']),
              (runes ''repositories.o/r.denied_orgs'', [runes ''datadog '', runes ''  ''])])
     (runes ''o'') (runes ''r'')) \<and>
   buildQuery sample_tables
     (map_of [(runes ''global.denied_packages'', [runes ''Left-Pad'', runes ''pkg@v1'']),
              (runes ''global.denied_orgs'', [runes ''DataDog''])])
     (runes ''o'') (runes ''r'') =
   buildQuery sample_tables
     (map_of [(runes ''global.denied_packages'',
                 [runes ''Left-Pad'', runes '' left-pad'', []]),
              (runes ''global.denied_orgs'', [runes ''DataDog'']),
              (runes ''repositories.o/r.denied_packages'',
                 [runes ''pkg@v1'', runes ''LEFT-PAD'']),
              (runes ''repositories.o/r.denied_orgs'', [runes ''datadog '', runes ''  ''])])
     (runes ''o'') (runes ''r'')"
proof -
  define cfg where "cfg =
     map_of [(runes ''global.denied_packages'',
                 [runes ''Left-Pad'', runes '' left-pad'', []]),
              (runes ''global.denied_orgs'', [runes ''DataDog'']),
              (runes ''repositories.o/r.denied_packages'',
                 [runes ''pkg@v1'', runes ''LEFT-PAD'']),
              (runes ''repositories.o/r.denied_orgs'', [runes ''datadog '', runes ''  ''])]"
  define cfg' where "cfg' =
     map_of [(runes ''global.denied_packages'', [runes ''Left-Pad'', runes ''pkg@v1'']),
              (runes ''global.denied_orgs'', [runes ''DataDog''])]"
  have h1: "getStringSlice cfg' (runes ''global.denied_packages'') =
      DeniedPackages (buildQuery sample_tables cfg (runes ''o'') (runes ''r''))"
    unfolding cfg_def cfg'_def by code_simp
  have h2: "getStringSlice cfg' (runes ''global.denied_orgs'') =
      DeniedOrgs (buildQuery sample_tables cfg (runes ''o'') (runes ''r''))"
    unfolding cfg_def cfg'_def by code_simp
  have h3: "getStringSlice cfg'
      (runes ''repositories.'' @ runes ''o'' @ runes ''/'' @ runes ''r'' @
       runes ''.denied_packages'') = []"
    unfolding cfg'_def by code_simp
  have h4: "getStringSlice cfg'
      (runes ''repositories.'' @ runes ''o'' @ runes ''/'' @ runes ''r'' @
       runes ''.denied_orgs'') = []"
    unfolding cfg'_def by code_simp
  from h1 buildQuery_remerge_idempotent [OF h1 h2 h3 h4] show ?thesis
    unfolding cfg_def cfg'_def by (rule conjI)
qed

section \<open>The merged lists\<close>

text \<open>
  C10. Both lists of the query that \<^verbatim>\<open>runCheck\<close> hands to the matcher are deduplicated
  forms of the configured lists (global entries first, then the repository's): no entry
  is blank, no two entries are equal after trimming and lower-casing, every configured
  entry that is not blank is represented, blank entries are dropped, and the entry kept
  for each kind is its first occurrence, unchanged and in the configured order.
\<close>

theorem buildQuery_lists_deduplicated:
  "deduplicated U
     (getStringSlice cfg (runes ''global.denied_packages'') @
      getStringSlice cfg
        (runes ''repositories.'' @ owner @ runes ''/'' @ repo @ runes ''.denied_packages''))
     (DeniedPackages (buildQuery U cfg owner repo)) \<and>
   deduplicated U
     (getStringSlice cfg (runes ''global.denied_orgs'') @
      getStringSlice cfg
        (runes ''repositories.'' @ owner @ runes ''/'' @ repo @ runes ''.denied_orgs''))
     (DeniedOrgs (buildQuery U cfg owner repo))"
  unfolding DeniedPackages_buildQuery DeniedOrgs_buildQuery
  by (intro conjI removeDuplicates_deduplicated)

theorem buildQuery_lists_deduplicated_witness:
  "deduplicated sample_tables
     [runes ''Left-Pad'', runes '' left-pad'', [], [0xA0],
      runes ''pkg@v1'', runes ''LEFT-PAD'', runes ''a'' @ [0xA0], runes ''a'']
     [runes ''Left-Pad'', runes ''pkg@v1'', runes ''a'' @ [0xA0]] \<and>
   deduplicated sample_tables
     [0xC9 # runes ''cole'', runes ''datadog '', runes ''  '', 0xE9 # runes ''COLE'']
     [0xC9 # runes ''cole'', runes ''datadog '']"
proof -
  define cfg where "cfg =
     map_of [(runes ''global.denied_packages'',
                 [runes ''Left-Pad'', runes '' left-pad'', [], [0xA0]]),
              (runes ''global.denied_orgs'', [0xC9 # runes ''cole'']),
              (runes ''repositories.o/r.denied_packages'',
                 [runes ''pkg@v1'', runes ''LEFT-PAD'', runes ''a'' @ [0xA0], runes ''a'']),
              (runes ''repositories.o/r.denied_orgs'',
                 [runes ''datadog '', runes ''  '', 0xE9 # runes ''COLE''])]"
  have p: "getStringSlice cfg (runes ''global.denied_packages'') @
      getStringSlice cfg
        (runes ''repositories.'' @ runes ''o'' @ runes ''/'' @ runes ''r'' @
         runes ''.denied_packages'') =
      [runes ''Left-Pad'', runes '' left-pad'', [], [0xA0],
       runes ''pkg@v1'', runes ''LEFT-PAD'', runes ''a'' @ [0xA0], runes ''a'']"
    unfolding cfg_def by code_simp
  have q: "getStringSlice cfg (runes ''global.denied_orgs'') @
      getStringSlice cfg
        (runes ''repositories.'' @ runes ''o'' @ runes ''/'' @ runes ''r'' @
         runes ''.denied_orgs'') =
      [0xC9 # runes ''cole'', runes ''datadog '', runes ''  '', 0xE9 # runes ''COLE'']"
    unfolding cfg_def by code_simp
  have dp: "DeniedPackages (buildQuery sample_tables cfg (runes ''o'') (runes ''r'')) =
      [runes ''Left-Pad'', runes ''pkg@v1'', runes ''a'' @ [0xA0]]"
    unfolding cfg_def by code_simp
  have dq: "DeniedOrgs (buildQuery sample_tables cfg (runes ''o'') (runes ''r'')) =
      [0xC9 # runes ''cole'', runes ''datadog '']"
    unfolding cfg_def by code_simp
  from buildQuery_lists_deduplicated [of sample_tables cfg "runes ''o''" "runes ''r''"]
  show ?thesis unfolding p q dp dq .
qed

section \<open>Facts about the records of the pull requests\<close>

lemma prs_loop_map:
  "prs_loop U q getStatus pulls prs =
     prs @ map (prInfo U q getStatus) (filter (\<lambda>p. prUserID p = dependabotUserID) pulls)"
  by (induction pulls arbitrary: prs) simp_all

lemma prInfo_fields:
  "Number (prInfo U q getStatus p) = prNumber p"
  "Title (prInfo U q getStatus p) = prTitle p"
  "URL (prInfo U q getStatus p) = prHTMLURL p"
  by (simp_all add: prInfo_def Let_def split: prod.splits sum.splits)

lemma prInfo_Status:
  "Status (prInfo U q getStatus p) =
     (case getStatus (Owner q) (Repo q) (prHeadSHA p) of Inr state \<Rightarrow> state | Inl err \<Rightarrow> [])"
  by (simp add: prInfo_def Let_def split: prod.splits sum.splits)

lemma prInfo_Skipped:
  "extractPackageInfo U (prTitle p) = (pkg, org) \<Longrightarrow>
     Skipped (prInfo U q getStatus p) = isDenied U pkg org (DeniedPackages q) (DeniedOrgs q)"
  by (simp add: prInfo_def Let_def split: sum.splits)

lemma prInfo_SkipReason:
  "extractPackageInfo U (prTitle p) = (pkg, org) \<Longrightarrow>
     SkipReason (prInfo U q getStatus p) =
       (if isDenied U pkg org (DeniedPackages q) (DeniedOrgs q) then
          (if org \<noteq> [] \<and> org_reason_loop U org (DeniedOrgs q) \<noteq> []
           then org_reason_loop U org (DeniedOrgs q)
           else if pkg \<noteq> [] then package_reason_loop U pkg (DeniedPackages q) else [])
        else [])"
  by (auto simp: prInfo_def Let_def split: sum.splits)

lemma prInfo_failed_lookup:
  assumes "getStatus (Owner q) (Repo q) (prHeadSHA p) = Inl err"
  shows "prInfo U q getStatus p = (prInfo U q getStatus' p)\<lparr>Status := []\<rparr>"
  using assms by (simp add: prInfo_def Let_def split: prod.splits sum.splits)

lemma org_reason_loop_iff:
  "org_reason_loop U org ds =
     (if \<exists>d \<in> set ds. EqualFold U org d then org_reason org else [])"
  by (induction ds) auto

lemma org_reason_not_empty: "org_reason org \<noteq> []"
  by (simp add: org_reason_def)

lemma package_reason_loop_find:
  "package_reason_loop U pkg ds =
     (case find (\<lambda>d. EqualFold U pkg d \<or> sublist (ToLower U d) (ToLower U pkg)) ds of
        Some d \<Rightarrow> package_reason d | None \<Rightarrow> [])"
  by (induction ds) (auto simp: Contains_iff)

section \<open>The reason of a denial\<close>

text \<open>
  C3. The record of a pull request is marked as skipped exactly when the matcher denies
  the package and organisation extracted from its title. For a record that is marked, the
  reason is chosen so: if the organisation is not empty and equal, under case folding, to
  a denied organisation, the reason is \<open>org '<org>' is denied\<close>; otherwise, if the package
  name is not empty, the reason is \<open>package '<entry>' is denied\<close> for the first denied
  package that is equal to the package name under case folding or whose lower-casing is
  contained in that of the package name, and empty when there is none; otherwise it is
  empty. The record stays skipped in each case. A record that is not marked has no reason.
\<close>

theorem skip_reason_selection:
  "extractPackageInfo U (prTitle p) = (pkg, org) \<longrightarrow>
     (Skipped (prInfo U q getStatus p) \<longleftrightarrow>
        isDenied U pkg org (DeniedPackages q) (DeniedOrgs q)) \<and>
     (\<not> Skipped (prInfo U q getStatus p) \<longrightarrow> SkipReason (prInfo U q getStatus p) = []) \<and>
     (Skipped (prInfo U q getStatus p) \<longrightarrow>
        SkipReason (prInfo U q getStatus p) =
          (if org \<noteq> [] \<and> (\<exists>d \<in> set (DeniedOrgs q). EqualFold U org d)
           then runes ''org '' @ [0x27] @ org @ [0x27] @ runes '' is denied''
           else if pkg \<noteq> [] then
             (case find (\<lambda>d. EqualFold U pkg d \<or> sublist (ToLower U d) (ToLower U pkg))
                     (DeniedPackages q) of
                Some d \<Rightarrow> runes ''package '' @ [0x27] @ d @ [0x27] @ runes '' is denied''
              | None \<Rightarrow> [])
           else []))"
proof (intro impI conjI)
  assume e: "extractPackageInfo U (prTitle p) = (pkg, org)"
  show "Skipped (prInfo U q getStatus p) \<longleftrightarrow>
        isDenied U pkg org (DeniedPackages q) (DeniedOrgs q)"
    using prInfo_Skipped [OF e, of q getStatus] by simp
next
  assume e: "extractPackageInfo U (prTitle p) = (pkg, org)"
    and n: "\<not> Skipped (prInfo U q getStatus p)"
  from n have "\<not> isDenied U pkg org (DeniedPackages q) (DeniedOrgs q)"
    using prInfo_Skipped [OF e, of q getStatus] by simp
  then show "SkipReason (prInfo U q getStatus p) = []"
    using prInfo_SkipReason [OF e, of q getStatus] by simp
next
  assume e: "extractPackageInfo U (prTitle p) = (pkg, org)"
    and s: "Skipped (prInfo U q getStatus p)"
  from s have d: "isDenied U pkg org (DeniedPackages q) (DeniedOrgs q)"
    using prInfo_Skipped [OF e, of q getStatus] by simp
  have "SkipReason (prInfo U q getStatus p) =
       (if org \<noteq> [] \<and> (\<exists>d \<in> set (DeniedOrgs q). EqualFold U org d)
        then org_reason org
        else if pkg \<noteq> [] then
          (case find (\<lambda>d. EqualFold U pkg d \<or> sublist (ToLower U d) (ToLower U pkg))
                  (DeniedPackages q) of
             Some d \<Rightarrow> package_reason d
           | None \<Rightarrow> [])
        else [])"
    unfolding prInfo_SkipReason [OF e, of q getStatus] if_P [OF d]
      org_reason_loop_iff package_reason_loop_find
    using org_reason_not_empty [of org] by simp
  then show "SkipReason (prInfo U q getStatus p) =
       (if org \<noteq> [] \<and> (\<exists>d \<in> set (DeniedOrgs q). EqualFold U org d)
        then runes ''org '' @ [0x27] @ org @ [0x27] @ runes '' is denied''
        else if pkg \<noteq> [] then
          (case find (\<lambda>d. EqualFold U pkg d \<or> sublist (ToLower U d) (ToLower U pkg))
                  (DeniedPackages q) of
             Some d \<Rightarrow> runes ''package '' @ [0x27] @ d @ [0x27] @ runes '' is denied''
           | None \<Rightarrow> [])
        else [])"
    unfolding org_reason_def package_reason_def .
qed

theorem skip_reason_selection_witness:
  "extractPackageInfo sample_tables
     (prTitle \<lparr>prNumber = 124,
               prTitle = runes ''Bump github.com/'' @ [0xE9] @
                         runes ''cole/alpha-lib from 5.0.0 to 5.1.0'',
               prHTMLURL = runes ''https://github.com/myorg/repo1/pull/124'',
               prUserID = 49699333, prHeadSHA = runes ''c0ffee''\<rparr>) =
     (runes ''github.com/'' @ [0xE9] @ runes ''cole/alpha-lib'', 0xE9 # runes ''cole'') \<and>
   Skipped (prInfo sample_tables
     \<lparr>Owner = runes ''myorg'', Repo = runes ''repo1'', DeniedPackages = [runes ''*alpha*''],
      DeniedOrgs = [0xC9 # runes ''cole'']\<rparr>
     (\<lambda>owner repo sha. Inr (runes ''success''))
     \<lparr>prNumber = 124,
      prTitle = runes ''Bump github.com/'' @ [0xE9] @
                runes ''cole/alpha-lib from 5.0.0 to 5.1.0'',
      prHTMLURL = runes ''https://github.com/myorg/repo1/pull/124'',
      prUserID = 49699333, prHeadSHA = runes ''c0ffee''\<rparr>) \<and>
   SkipReason (prInfo sample_tables
     \<lparr>Owner = runes ''myorg'', Repo = runes ''repo1'', DeniedPackages = [runes ''*alpha*''],
      DeniedOrgs = [0xC9 # runes ''cole'']\<rparr>
     (\<lambda>owner repo sha. Inr (runes ''success''))
     \<lparr>prNumber = 124,
      prTitle = runes ''Bump github.com/'' @ [0xE9] @
                runes ''cole/alpha-lib from 5.0.0 to 5.1.0'',
      prHTMLURL = runes ''https://github.com/myorg/repo1/pull/124'',
      prUserID = 49699333, prHeadSHA = runes ''c0ffee''\<rparr>) =
     runes ''org '' @ [0x27] @ (0xE9 # runes ''cole'') @ [0x27] @ runes '' is denied''"
proof -
  define p where "p = \<lparr>prNumber = 124,
      prTitle = runes ''Bump github.com/'' @ [0xE9] @
                runes ''cole/alpha-lib from 5.0.0 to 5.1.0'',
      prHTMLURL = runes ''https://github.com/myorg/repo1/pull/124'',
      prUserID = 49699333, prHeadSHA = runes ''c0ffee''\<rparr>"
  define q where "q = \<lparr>Owner = runes ''myorg'', Repo = runes ''repo1'',
      DeniedPackages = [runes ''*alpha*''], DeniedOrgs = [0xC9 # runes ''cole'']\<rparr>"
  define g :: "gostring \<Rightarrow> gostring \<Rightarrow> gostring \<Rightarrow> api_error + gostring"
    where "g = (\<lambda>owner repo sha. Inr (runes ''success''))"
  define pkg where "pkg = runes ''github.com/'' @ [0xE9] @ runes ''cole/alpha-lib''"
  define org where "org = 0xE9 # runes ''cole''"
  have e: "extractPackageInfo sample_tables (prTitle p) = (pkg, org)"
    unfolding p_def pkg_def org_def by code_simp
  have s: "Skipped (prInfo sample_tables q g p)"
    unfolding p_def q_def g_def by code_simp
  have o: "org \<noteq> [] \<and> (\<exists>d \<in> set (DeniedOrgs q). EqualFold sample_tables org d)"
    unfolding org_def q_def by code_simp
  from skip_reason_selection [of sample_tables p pkg org q g] e s
  have "SkipReason (prInfo sample_tables q g p) =
      runes ''org '' @ [0x27] @ org @ [0x27] @ runes '' is denied''"
    unfolding if_P [OF o] by blast
  with e s show ?thesis
    unfolding p_def q_def g_def pkg_def org_def by blast
qed

section \<open>A failed status lookup\<close>

text \<open>
  C8. When the pull requests of the repository have been listed, the result is never an
  error: it holds one record for every pull request of the bot, in the order of the
  listing, whatever the status lookups answer. For a pull request whose status lookup
  fails, the record has the number, title and link of the pull request and an empty
  status, and it is the record that any other answer would have given but for the status.
\<close>

theorem failed_status_lookup_keeps_record:
  "(listPulls (Owner q) (Repo q) = Inr pulls \<longrightarrow>
      GetDependabotPRsWithDenyList U listPulls getStatus q =
        Inr (map (prInfo U q getStatus)
               (filter (\<lambda>p. prUserID p = dependabotUserID) pulls))) \<and>
   (getStatus (Owner q) (Repo q) (prHeadSHA p) = Inl err \<longrightarrow>
      Status (prInfo U q getStatus p) = [] \<and>
      Number (prInfo U q getStatus p) = prNumber p \<and>
      Title (prInfo U q getStatus p) = prTitle p \<and>
      URL (prInfo U q getStatus p) = prHTMLURL p \<and>
      prInfo U q getStatus p = (prInfo U q getStatus' p)\<lparr>Status := []\<rparr>)"
proof (intro conjI impI)
  assume "listPulls (Owner q) (Repo q) = Inr pulls"
  then show "GetDependabotPRsWithDenyList U listPulls getStatus q =
        Inr (map (prInfo U q getStatus)
               (filter (\<lambda>p. prUserID p = dependabotUserID) pulls))"
    by (simp add: GetDependabotPRsWithDenyList_def prs_loop_map)
next
  assume f: "getStatus (Owner q) (Repo q) (prHeadSHA p) = Inl err"
  then show "Status (prInfo U q getStatus p) = []"
    by (simp add: prInfo_Status)
  show "prInfo U q getStatus p = (prInfo U q getStatus' p)\<lparr>Status := []\<rparr>"
    using f by (rule prInfo_failed_lookup)
qed (simp_all add: prInfo_fields)

theorem failed_status_lookup_keeps_record_witness:
  "GetDependabotPRsWithDenyList sample_tables
     (\<lambda>owner repo. Inr
        [\<lparr>prNumber = 7, prTitle = runes ''Bump left-pad from 1.0.0 to 1.1.0'',
          prHTMLURL = runes ''u7'', prUserID = 49699333, prHeadSHA = runes ''aaa''\<rparr>,
         \<lparr>prNumber = 8, prTitle = runes ''Fix typo'', prHTMLURL = runes ''u8'',
          prUserID = 1, prHeadSHA = runes ''bbb''\<rparr>,
         \<lparr>prNumber = 9, prTitle = runes ''Bump rails from 6 to 7'', prHTMLURL = runes ''u9'',
          prUserID = 49699333, prHeadSHA = runes ''ccc''\<rparr>])
     (\<lambda>owner repo sha. if sha = runes ''aaa'' then Inl (ApiError (runes ''timeout''))
        else Inr (runes ''success''))
     \<lparr>Owner = runes ''o'', Repo = runes ''r'', DeniedPackages = [], DeniedOrgs = []\<rparr> =
   Inr [\<lparr>Number = 7, Title = runes ''Bump left-pad from 1.0.0 to 1.1.0'', URL = runes ''u7'',
         Status = [], Skipped = False, SkipReason = []\<rparr>,
        \<lparr>Number = 9, Title = runes ''Bump rails from 6 to 7'', URL = runes ''u9'',
         Status = runes ''success'', Skipped = False, SkipReason = []\<rparr>]"
proof -
  define p7 where "p7 = \<lparr>prNumber = 7, prTitle = runes ''Bump left-pad from 1.0.0 to 1.1.0'',
          prHTMLURL = runes ''u7'', prUserID = 49699333, prHeadSHA = runes ''aaa''\<rparr>"
  define p8 where "p8 = \<lparr>prNumber = 8, prTitle = runes ''Fix typo'', prHTMLURL = runes ''u8'',
          prUserID = 1, prHeadSHA = runes ''bbb''\<rparr>"
  define p9 where "p9 = \<lparr>prNumber = 9, prTitle = runes ''Bump rails from 6 to 7'',
          prHTMLURL = runes ''u9'', prUserID = 49699333, prHeadSHA = runes ''ccc''\<rparr>"
  define l :: "gostring \<Rightarrow> gostring \<Rightarrow> api_error + PullRequest list"
    where "l = (\<lambda>owner repo. Inr [p7, p8, p9])"
  define g :: "gostring \<Rightarrow> gostring \<Rightarrow> gostring \<Rightarrow> api_error + gostring"
    where "g = (\<lambda>owner repo sha. if sha = runes ''aaa''
      then Inl (ApiError (runes ''timeout'')) else Inr (runes ''success''))"
  define g' :: "gostring \<Rightarrow> gostring \<Rightarrow> gostring \<Rightarrow> api_error + gostring"
    where "g' = (\<lambda>owner repo sha. Inr (runes ''success''))"
  define q where "q = \<lparr>Owner = runes ''o'', Repo = runes ''r'',
      DeniedPackages = [], DeniedOrgs = []\<rparr>"
  have l: "l (Owner q) (Repo q) = Inr [p7, p8, p9]" by (simp add: l_def)
  have f: "g (Owner q) (Repo q) (prHeadSHA p7) = Inl (ApiError (runes ''timeout''))"
    by (simp add: g_def p7_def)
  have d: "filter (\<lambda>p. prUserID p = dependabotUserID) [p7, p8, p9] = [p7, p9]"
    by (simp add: dependabotUserID_def p7_def p8_def p9_def)
  have r7: "prInfo sample_tables q g' p7 =
      \<lparr>Number = 7, Title = runes ''Bump left-pad from 1.0.0 to 1.1.0'', URL = runes ''u7'',
       Status = runes ''success'', Skipped = False, SkipReason = []\<rparr>"
    unfolding q_def g'_def p7_def by code_simp
  have r9: "prInfo sample_tables q g p9 =
      \<lparr>Number = 9, Title = runes ''Bump rails from 6 to 7'', URL = runes ''u9'',
       Status = runes ''success'', Skipped = False, SkipReason = []\<rparr>"
    unfolding q_def g_def p9_def by code_simp
  from failed_status_lookup_keeps_record
    [of l q "[p7, p8, p9]" sample_tables g p7 "ApiError (runes ''timeout'')" g'] l f
  have "GetDependabotPRsWithDenyList sample_tables l g q =
      Inr (map (prInfo sample_tables q g) [p7, p9])"
    and "prInfo sample_tables q g p7 = (prInfo sample_tables q g' p7)\<lparr>Status := []\<rparr>"
    unfolding d by blast+
  then have "GetDependabotPRsWithDenyList sample_tables l g q =
      Inr [\<lparr>Number = 7, Title = runes ''Bump left-pad from 1.0.0 to 1.1.0'', URL = runes ''u7'',
         Status = [], Skipped = False, SkipReason = []\<rparr>,
        \<lparr>Number = 9, Title = runes ''Bump rails from 6 to 7'', URL = runes ''u9'',
         Status = runes ''success'', Skipped = False, SkipReason = []\<rparr>]"
    unfolding r7 r9 list.map by simp
  then show ?thesis
    unfolding l_def g_def q_def p7_def p8_def p9_def .
qed

section \<open>Facts about the title parser\<close>

lemma Split_not_Nil: "Split s sep \<noteq> []"
  by (induction s) (auto split: list.splits)

lemma Split_no_sep: "sep \<notin> set a \<Longrightarrow> Split a sep = [a]"
  by (induction a) auto

lemma Split_append_sep: "sep \<notin> set a \<Longrightarrow> Split (a @ sep # b) sep = a # Split b sep"
  by (induction a) auto

lemma snd_extractPackageInfo:
  "snd (extractPackageInfo U title) = extractOrg U (fst (extractPackageInfo U title))"
  by (simp add: extractPackageInfo_def Let_def)

lemma extractOrg_golang:
  assumes "prefix (runes ''golang.org/x/'') pkg \<or> prefix (runes ''google.golang.org/'') pkg"
  shows "extractOrg U pkg = []"
proof -
  from assms obtain r where
    "pkg = runes ''golang.org/x/'' @ r \<or> pkg = runes ''google.golang.org/'' @ r"
    by (auto elim: prefixE)
  then show ?thesis
    by (auto simp: extractOrg_def Contains_iff HasPrefix_iff)
qed

lemma extractOrg_gopkg:
  assumes "prefix (runes ''gopkg.in/'') pkg"
  shows "extractOrg U pkg =
     (if length (Split pkg (rune_of CHR ''/'')) > 2
      then ToLower U (Split pkg (rune_of CHR ''/'') ! 1) else [])"
proof -
  from assms obtain r where r: "pkg = runes ''gopkg.in/'' @ r" by (auto elim: prefixE)
  have "pkg \<noteq> []" "\<not> HasPrefix pkg (runes ''@'')" "Contains pkg (runes ''/'')"
    "\<not> HasPrefix pkg (runes ''golang.org/x/'')"
    "\<not> HasPrefix pkg (runes ''google.golang.org/'')"
    "HasPrefix pkg (runes ''gopkg.in/'')"
    unfolding r by (simp_all add: Contains_iff)
  then show ?thesis
    by (simp add: extractOrg_def Let_def)
qed

lemma extractOrg_github:
  assumes "prefix (runes ''github.com/'') pkg"
    and "length (Split pkg (rune_of CHR ''/'')) \<ge> 3"
  shows "extractOrg U pkg = Split pkg (rune_of CHR ''/'') ! 1"
proof -
  from assms obtain r where r: "pkg = runes ''github.com/'' @ r" by (auto elim: prefixE)
  have "pkg \<noteq> []" "\<not> HasPrefix pkg (runes ''@'')" "Contains pkg (runes ''/'')"
    "\<not> HasPrefix pkg (runes ''golang.org/x/'')"
    "\<not> HasPrefix pkg (runes ''google.golang.org/'')"
    "\<not> HasPrefix pkg (runes ''gopkg.in/'')" "HasPrefix pkg (runes ''github.com/'')"
    unfolding r by (simp_all add: Contains_iff)
  then show ?thesis
    using assms(2) by (simp add: extractOrg_def Let_def)
qed

lemma Split_host_org_rest:
  assumes "47 \<notin> set host" and "47 \<notin> set org"
  shows "Split (host @ 47 # org @ 47 # rest) 47 = host # org # Split rest 47"
  using assms Split_append_sep [of 47 host "org @ 47 # rest"]
    Split_append_sep [of 47 org rest]
  by simp

section \<open>The organisation of a package\<close>

text \<open>
  C6. The organisation that the parser returns is computed from the package name it
  returns. For a package name that begins with \<open>golang.org/x/\<close> or \<open>google.golang.org/\<close> it
  is empty. For one that begins with \<open>gopkg.in/\<close> it is the second of the segments between
  the slashes, lower-cased, when there are more than two segments, and empty otherwise.
  For one that begins with \<open>github.com/\<close> and has at least three segments it is the second
  segment as it is written. The last three lines say the same without \<open>Split\<close>, for a name
  that is written out as its segments.
\<close>

theorem extractOrg_ecosystem_rules:
  "snd (extractPackageInfo U title) = extractOrg U (fst (extractPackageInfo U title)) \<and>
   (prefix (runes ''golang.org/x/'') pkg \<or> prefix (runes ''google.golang.org/'') pkg \<longrightarrow>
      extractOrg U pkg = []) \<and>
   (prefix (runes ''gopkg.in/'') pkg \<longrightarrow>
      extractOrg U pkg =
        (if length (Split pkg (rune_of CHR ''/'')) > 2
         then ToLower U (Split pkg (rune_of CHR ''/'') ! 1) else [])) \<and>
   (prefix (runes ''github.com/'') pkg \<and> length (Split pkg (rune_of CHR ''/'')) \<ge> 3 \<longrightarrow>
      extractOrg U pkg = Split pkg (rune_of CHR ''/'') ! 1) \<and>
   (rune_of CHR ''/'' \<notin> set org \<longrightarrow>
      extractOrg U (runes ''gopkg.in/'' @ org @ runes ''/'' @ rest) = ToLower U org) \<and>
   (rune_of CHR ''/'' \<notin> set org \<longrightarrow> extractOrg U (runes ''gopkg.in/'' @ org) = []) \<and>
   (rune_of CHR ''/'' \<notin> set org \<longrightarrow>
      extractOrg U (runes ''github.com/'' @ org @ runes ''/'' @ rest) = org)"
proof (intro conjI impI)
  show "snd (extractPackageInfo U title) = extractOrg U (fst (extractPackageInfo U title))"
    by (rule snd_extractPackageInfo)
next
  assume "prefix (runes ''golang.org/x/'') pkg \<or> prefix (runes ''google.golang.org/'') pkg"
  then show "extractOrg U pkg = []" by (rule extractOrg_golang)
next
  assume "prefix (runes ''gopkg.in/'') pkg"
  then show "extractOrg U pkg =
        (if length (Split pkg (rune_of CHR ''/'')) > 2
         then ToLower U (Split pkg (rune_of CHR ''/'') ! 1) else [])"
    by (rule extractOrg_gopkg)
next
  assume "prefix (runes ''github.com/'') pkg \<and> length (Split pkg (rune_of CHR ''/'')) \<ge> 3"
  then show "extractOrg U pkg = Split pkg (rune_of CHR ''/'') ! 1"
    using extractOrg_github [of pkg] by simp
next
  assume "rune_of CHR ''/'' \<notin> set org"
  then have o: "47 \<notin> set org" by simp
  define host where "host = runes ''gopkg.in''"
  have h: "47 \<notin> set host" by (simp add: host_def)
  have n: "runes ''gopkg.in/'' @ org @ runes ''/'' @ rest = host @ 47 # org @ 47 # rest"
    by (simp add: host_def)
  have s: "Split (host @ 47 # org @ 47 # rest) 47 = host # org # Split rest 47"
    using h o by (rule Split_host_org_rest)
  have "prefix (runes ''gopkg.in/'') (host @ 47 # org @ 47 # rest)"
    by (simp add: host_def)
  from extractOrg_gopkg [OF this, of U] s
  have "extractOrg U (host @ 47 # org @ 47 # rest) = ToLower U org"
    using Split_not_Nil [of rest 47] by (cases "Split rest 47") simp_all
  then show "extractOrg U (runes ''gopkg.in/'' @ org @ runes ''/'' @ rest) = ToLower U org"
    unfolding n .
next
  assume "rune_of CHR ''/'' \<notin> set org"
  then have o: "47 \<notin> set org" by simp
  define host where "host = runes ''gopkg.in''"
  have h: "47 \<notin> set host" by (simp add: host_def)
  have n: "runes ''gopkg.in/'' @ org = host @ 47 # org" by (simp add: host_def)
  have s: "Split (host @ 47 # org) 47 = [host, org]"
    using Split_append_sep [OF h, of org] Split_no_sep [OF o] by simp
  have "prefix (runes ''gopkg.in/'') (host @ 47 # org)" by (simp add: host_def)
  from extractOrg_gopkg [OF this, of U] s
  have "extractOrg U (host @ 47 # org) = []" by simp
  then show "extractOrg U (runes ''gopkg.in/'' @ org) = []" unfolding n .
next
  assume "rune_of CHR ''/'' \<notin> set org"
  then have o: "47 \<notin> set org" by simp
  define host where "host = runes ''github.com''"
  have h: "47 \<notin> set host" by (simp add: host_def)
  have n: "runes ''github.com/'' @ org @ runes ''/'' @ rest = host @ 47 # org @ 47 # rest"
    by (simp add: host_def)
  have s: "Split (host @ 47 # org @ 47 # rest) 47 = host # org # Split rest 47"
    using h o by (rule Split_host_org_rest)
  have p: "prefix (runes ''github.com/'') (host @ 47 # org @ 47 # rest)"
    by (simp add: host_def)
  have l: "length (Split (host @ 47 # org @ 47 # rest) (rune_of CHR ''/'')) \<ge> 3"
    using s Split_not_Nil [of rest 47] by (cases "Split rest 47") simp_all
  from extractOrg_github [OF p l, of U] s
  have "extractOrg U (host @ 47 # org @ 47 # rest) = org" by simp
  then show "extractOrg U (runes ''github.com/'' @ org @ runes ''/'' @ rest) = org"
    unfolding n .
qed

theorem extractOrg_ecosystem_rules_witness:
  "prefix (runes ''golang.org/x/'') (runes ''golang.org/x/net'') \<and>
   extractOrg sample_tables (runes ''golang.org/x/net'') = [] \<and>
   prefix (runes ''gopkg.in/'') (runes ''gopkg.in/'' @ [0xC9] @ runes ''COLE/x'') \<and>
   extractOrg sample_tables (runes ''gopkg.in/'' @ [0xC9] @ runes ''COLE/x'') =
     0xE9 # runes ''cole'' \<and>
   prefix (runes ''github.com/'') (runes ''github.com/DataDog/datadog-go'') \<and>
   length (Split (runes ''github.com/DataDog/datadog-go'') (rune_of CHR ''/'')) \<ge> 3 \<and>
   extractOrg sample_tables (runes ''github.com/DataDog/datadog-go'') = runes ''DataDog'' \<and>
   rune_of CHR ''/'' \<notin> set (runes ''yaml.v3'') \<and>
   extractOrg sample_tables (runes ''gopkg.in/'' @ runes ''yaml.v3'') = []"
proof -
  define p1 where "p1 = runes ''golang.org/x/net''"
  define p2 where "p2 = runes ''gopkg.in/'' @ [0xC9] @ runes ''COLE/x''"
  define p3 where "p3 = runes ''github.com/DataDog/datadog-go''"
  define o4 where "o4 = runes ''yaml.v3''"
  note r = extractOrg_ecosystem_rules [where U = sample_tables]
  have a: "prefix (runes ''golang.org/x/'') p1" by (simp add: p1_def)
  have b: "prefix (runes ''gopkg.in/'') p2" by (simp add: p2_def)
  have c: "prefix (runes ''github.com/'') p3" by (simp add: p3_def)
  have d: "length (Split p3 (rune_of CHR ''/'')) \<ge> 3" unfolding p3_def by code_simp
  have e: "rune_of CHR ''/'' \<notin> set o4" by (simp add: o4_def)
  have sb: "(if length (Split p2 (rune_of CHR ''/'')) > 2
      then ToLower sample_tables (Split p2 (rune_of CHR ''/'') ! 1) else []) =
      0xE9 # runes ''cole''"
    unfolding p2_def by code_simp
  have sc: "Split p3 (rune_of CHR ''/'') ! 1 = runes ''DataDog''"
    unfolding p3_def by code_simp
  have "extractOrg sample_tables p1 = []"
    using r [of "[]" p1 "[]" "[]"] a by blast
  moreover have "extractOrg sample_tables p2 = 0xE9 # runes ''cole''"
    using r [of "[]" p2 "[]" "[]"] b unfolding sb by blast
  moreover have "extractOrg sample_tables p3 = runes ''DataDog''"
    using r [of "[]" p3 "[]" "[]"] c d unfolding sc by blast
  moreover have "extractOrg sample_tables (runes ''gopkg.in/'' @ o4) = []"
    using r [of "[]" "[]" o4 "[]"] e by blast
  ultimately show ?thesis
    using a b c d e unfolding p1_def p2_def p3_def o4_def by blast
qed

section \<open>Facts about the matcher of regular expressions\<close>

lemma seqs_Nil [simp]: "seqs [] = Eps"
  by (simp add: seqs_def)

lemma seqs_Cons [simp]: "seqs (r # rs) = Seq r (seqs rs)"
  by (simp add: seqs_def)

lemma str_Nil: "str [] = Eps"
  by (simp add: str_def)

lemma str_Cons: "str (c # w) = Seq (Atom (Lit c)) (str w)"
  by (simp add: str_def)

lemma ms_str_match:
  "map ascii_lower w' = map ascii_lower w \<Longrightarrow>
     ms (str w) (i, w' @ s, g) = [(i + length w, s, g)]"
proof (induction w arbitrary: w' i)
  case Nil
  then show ?case by (simp add: str_Nil)
next
  case (Cons c w)
  then obtain d v where w': "w' = d # v" "ascii_lower d = ascii_lower c"
    "map ascii_lower v = map ascii_lower w"
    by (cases w') auto
  show ?case
    using Cons.IH [OF w'(3), of "Suc i"] w'(1,2) by (simp add: str_Cons)
qed

lemma ms_str_mismatch:
  "ascii_lower d \<noteq> ascii_lower c \<Longrightarrow> ms (str (c # w)) (i, d # s, g) = []"
  by (simp add: str_Cons)

lemma ms_Plus_mismatch: "\<not> cls_matches c d \<Longrightarrow> ms (Plus c) (i, d # s, g) = []"
  by (simp add: Plus_def)

lemma ms_Plus_match:
  "cls_matches c d \<Longrightarrow> ms (Plus c) (i, d # s, g) = ms (Star c) (Suc i, s, g)"
  by (simp add: Plus_def)

lemma ms_Star_stop:
  "s = [] \<or> \<not> cls_matches c (hd s) \<Longrightarrow> ms (Star c) (i, s, g) = [(i, s, g)]"
  by (cases s) auto

text \<open>
  A greedy star followed by something that cannot start with a rune of the class: the
  star takes every rune of the class, since each shorter repetition fails.
\<close>

lemma star_then:
  assumes "\<forall>x \<in> set xs. cls_matches c x"
    and "t = [] \<or> \<not> cls_matches c (hd t)"
    and "\<And>j d s' g'. cls_matches c d \<Longrightarrow> k (j, d # s', g') = []"
  shows "concat (map k (ms (Star c) (i, xs @ t, g))) = k (i + length xs, t, g)"
  using assms(1)
proof (induction xs arbitrary: i)
  case Nil
  show ?case using ms_Star_stop [OF assms(2), of i g] by simp
next
  case (Cons x xs)
  then have x: "cls_matches c x" and xs: "\<forall>x \<in> set xs. cls_matches c x" by simp_all
  have "ms (Star c) (i, (x # xs) @ t, g) =
      ms (Star c) (Suc i, xs @ t, g) @ [(i, x # xs @ t, g)]"
    using x by simp
  then show ?case
    using Cons.IH [OF xs, of "Suc i"] assms(3) [OF x] by simp
qed

text \<open>
  The common tail \<^verbatim>\<open>\s+([^\s]+)\s+(?:from|to)\<close> of the patterns on a text that goes on with
  one space, a token \<open>X\<close> without white space, one space and \<open>from\<close>: one match, and the
  group holds \<open>X\<close>.
\<close>

lemma ms_package_from:
  assumes "X \<noteq> []" and "\<forall>c \<in> set X. \<not> regex_space c"
  shows "ms (seqs package_from_to) (i, 32 # X @ 32 # runes ''from'' @ rest, g) =
     [(i + length X + 6, rest, Some X)]"
proof -
  define frm where "frm = runes ''from''"
  define R_ft where "R_ft = seqs [Alt (str frm) (str (runes ''to''))]"
  define R_s2 where "R_s2 = Seq (Plus Space) R_ft"
  define R_g where "R_g = Seq (Group (Plus NonSpace)) R_s2"
  define t where "t = 32 # frm @ rest"
  have pft: "seqs package_from_to = Seq (Plus Space) R_g"
    by (simp add: package_from_to_def R_g_def R_s2_def R_ft_def frm_def)
  from assms obtain x X' where X: "X = x # X'" "\<not> regex_space x"
    "\<forall>c \<in> set X'. cls_matches NonSpace c"
    by (cases X) auto
  have sp: "cls_matches Space 32" by (simp add: regex_space_def)
  have fr: "frm = 102 # runes ''rom''" "length frm = 4" by (simp_all add: frm_def)
  have ft: "ms R_ft (j, frm @ rest, G) = [(j + 4, rest, G)]" for j G
  proof -
    have "ms (str frm) (j, frm @ rest, G) = [(j + length frm, rest, G)]"
      by (rule ms_str_match) simp
    moreover have "ms (str (runes ''to'')) (j, frm @ rest, G) = []"
      unfolding fr(1) by (simp add: str_Cons ascii_lower_def)
    ultimately show ?thesis by (simp add: R_ft_def fr(2))
  qed
  have s2: "ms R_s2 (j, t, G) = [(j + 5, rest, G)]" for j G
  proof -
    have "ms (Plus Space) (j, t, G) = ms (Star Space) (Suc j, frm @ rest, G)"
      unfolding t_def by (rule ms_Plus_match) (rule sp)
    also have "\<dots> = [(Suc j, frm @ rest, G)]"
      by (rule ms_Star_stop) (simp add: regex_space_def fr(1))
    finally show ?thesis
      using ft [of "Suc j" G] by (simp add: R_s2_def)
  qed
  have s2_fail: "ms R_s2 (j, d # s', G) = []" if "cls_matches NonSpace d" for j d s' G
    using that by (simp add: R_s2_def ms_Plus_mismatch)
  have g: "ms R_g (j, X @ t, G) = [(j + length X + 5, rest, Some X)]" for j G
  proof -
    let ?cap = "\<lambda>(j', t', _). (j', t', Some (take (j' - j) (X @ t)))"
    let ?k = "\<lambda>st. ms R_s2 (?cap st)"
    have "ms (Plus NonSpace) (j, X @ t, G) = ms (Star NonSpace) (Suc j, X' @ t, G)"
      unfolding X(1) using X(2) by (simp add: ms_Plus_match)
    then have "ms R_g (j, X @ t, G) = concat (map ?k (ms (Star NonSpace) (Suc j, X' @ t, G)))"
      by (simp add: R_g_def map_map comp_def)
    also have "\<dots> = ?k (Suc j + length X', t, G)"
    proof (rule star_then)
      show "\<forall>x \<in> set X'. cls_matches NonSpace x" by (rule X(3))
      show "t = [] \<or> \<not> cls_matches NonSpace (hd t)"
        by (simp add: t_def regex_space_def)
      show "?k (j', d # s', g') = []" if "cls_matches NonSpace d" for j' d s' g'
        using s2_fail [OF that] by simp
    qed
    also have "\<dots> = ms R_s2 (j + length X, t, Some X)"
      by (simp add: X(1))
    finally show ?thesis using s2 [of "j + length X" "Some X"] by simp
  qed
  have "ms (Plus Space) (i, 32 # X @ t, g) = ms (Star Space) (Suc i, X @ t, g)"
    by (rule ms_Plus_match) (rule sp)
  also have "\<dots> = [(Suc i, X @ t, g)]"
    by (rule ms_Star_stop) (simp add: X)
  finally have "ms (seqs package_from_to) (i, 32 # X @ t, g) =
      [(Suc i + length X + 5, rest, Some X)]"
    using g [of "Suc i" g] by (simp add: pft)
  then show ?thesis by (simp add: t_def frm_def)
qed

lemma pattern_bump_unfold:
  "pattern_bump =
     Seq Bol (Seq (Atom (OneOf (runes ''Bb''))) (Seq (str (runes ''ump''))
       (seqs package_from_to)))"
  by (simp add: pattern_bump_def del: runes_Cons runes_Nil)

lemma ms_pattern_bump:
  assumes "map ascii_lower kw = runes ''bump''" and "X \<noteq> []"
    and "\<forall>c \<in> set X. \<not> regex_space c"
  shows "ms pattern_bump (0, kw @ 32 # X @ 32 # runes ''from'' @ rest, None) =
     [(length X + 10, rest, Some X)]"
proof -
  define ump where "ump = runes ''ump''"
  have ump_lower: "map ascii_lower ump = ump"
    by (simp add: ump_def ascii_lower_def)
  from assms(1) obtain k kw' where kw: "kw = k # kw'" "ascii_lower k = 98"
    and kw3: "map ascii_lower kw' = map ascii_lower ump"
    unfolding ump_lower by (cases kw) (auto simp: ump_def)
  define t where "t = 32 # X @ 32 # runes ''from'' @ rest"
  have b: "cls_matches (OneOf (runes ''Bb'')) k"
    using kw(2) by (simp add: ascii_lower_def)
  have A: "ms (Atom (OneOf (runes ''Bb''))) (0, k # kw' @ t, None) =
      [(Suc 0, kw' @ t, None)]"
    using b by (simp del: runes_Cons runes_Nil cls_matches.simps)
  have S: "ms (str ump) (Suc 0, kw' @ t, None) = [(4, t, None)]"
    using ms_str_match [OF kw3, of "Suc 0" t None] by (simp add: ump_def)
  have R: "ms (seqs package_from_to) (4, t, None) = [(length X + 10, rest, Some X)]"
    using ms_package_from [OF assms(2,3), of 4 rest None] by (simp add: t_def)
  have "ms pattern_bump (0, kw @ t, None) = [(length X + 10, rest, Some X)]"
    unfolding pattern_bump_unfold kw(1) ump_def [symmetric]
    by (simp add: A S R del: ms.simps(2) runes_Cons runes_Nil)
  then show ?thesis by (simp add: t_def)
qed

lemma FindStringSubmatch_pattern_bump:
  assumes "map ascii_lower kw = runes ''bump''" and "X \<noteq> []"
    and "\<forall>c \<in> set X. \<not> regex_space c"
  shows "FindStringSubmatch pattern_bump (kw @ runes '' '' @ X @ runes '' from'' @ rest) =
     [kw @ runes '' '' @ X @ runes '' from'', X]"
proof -
  define w where "w = kw @ runes '' '' @ X @ runes '' from''"
  define T where "T = w @ rest"
  from assms(1) have "length (map ascii_lower kw) = length (runes ''bump'')" by simp
  then have len: "length w = length X + 10" by (simp add: w_def)
  have m: "ms pattern_bump (0, T, None) = [(length X + 10, rest, Some X)]"
    using ms_pattern_bump [OF assms, of rest] by (simp add: T_def w_def)
  have "find_at pattern_bump 0 T = [take (length X + 10) T, X]"
  proof (cases T)
    case Nil
    then show ?thesis using len by (simp add: T_def)
  next
    case (Cons c s)
    show ?thesis using m unfolding Cons by simp
  qed
  moreover have "take (length X + 10) T = w"
    using len by (simp add: T_def)
  ultimately have "FindStringSubmatch pattern_bump T = [w, X]"
    by (simp add: FindStringSubmatch_def)
  then show ?thesis by (simp add: T_def w_def)
qed

lemma match_patterns_first:
  assumes "length (FindStringSubmatch pattern_bump title) > 1"
  shows "match_patterns patterns title = FindStringSubmatch pattern_bump title ! 1"
  using assms by (simp add: patterns_def Let_def)

lemma fst_extractPackageInfo_matched:
  "match_patterns patterns title \<noteq> [] \<Longrightarrow>
     fst (extractPackageInfo U title) = match_patterns patterns title"
  by (simp add: extractPackageInfo_def Let_def)

section \<open>Titles that start with Bump\<close>

text \<open>
  C5. For a keyword equal to \<open>Bump\<close> up to case, a token \<open>X\<close> that is not empty and has no
  white space (none of the five runes of the class \<^verbatim>\<open>\s\<close>), and any texts \<open>A\<close> and \<open>B\<close>, the
  parser returns \<open>X\<close> as the package name of the title \<open>Bump X from A to B\<close>. The pattern
  with the leading \<open>Bump\<close> is the first one tried: when it matches with a group that is not
  empty, the group is the package name, whatever the other patterns and the fallback would
  give. And whenever the patterns give a name that is not empty, the fallback is not
  consulted.
\<close>

theorem bump_title_package:
  "(map ascii_lower kw = runes ''bump'' \<and> X \<noteq> [] \<and> (\<forall>c \<in> set X. \<not> regex_space c) \<longrightarrow>
      fst (extractPackageInfo U
             (kw @ runes '' '' @ X @ runes '' from '' @ A @ runes '' to '' @ B)) = X) \<and>
   (length (FindStringSubmatch pattern_bump title) > 1 \<and>
    FindStringSubmatch pattern_bump title ! 1 \<noteq> [] \<longrightarrow>
      fst (extractPackageInfo U title) = FindStringSubmatch pattern_bump title ! 1) \<and>
   (match_patterns patterns title \<noteq> [] \<longrightarrow>
      fst (extractPackageInfo U title) = match_patterns patterns title)"
proof (intro conjI impI)
  assume h: "map ascii_lower kw = runes ''bump'' \<and> X \<noteq> [] \<and>
    (\<forall>c \<in> set X. \<not> regex_space c)"
  define rest where "rest = runes '' '' @ A @ runes '' to '' @ B"
  define title' where "title' = kw @ runes '' '' @ X @ runes '' from'' @ rest"
  have t: "kw @ runes '' '' @ X @ runes '' from '' @ A @ runes '' to '' @ B = title'"
    by (simp add: title'_def rest_def)
  have m: "FindStringSubmatch pattern_bump title' = [kw @ runes '' '' @ X @ runes '' from'', X]"
    unfolding title'_def using h by (intro FindStringSubmatch_pattern_bump) simp_all
  then have "match_patterns patterns title' = X"
    using match_patterns_first [of title'] by simp
  then have "fst (extractPackageInfo U title') = X"
    using h fst_extractPackageInfo_matched [of title' U] by simp
  then show "fst (extractPackageInfo U
             (kw @ runes '' '' @ X @ runes '' from '' @ A @ runes '' to '' @ B)) = X"
    unfolding t .
next
  assume "length (FindStringSubmatch pattern_bump title) > 1 \<and>
    FindStringSubmatch pattern_bump title ! 1 \<noteq> []"
  then show "fst (extractPackageInfo U title) = FindStringSubmatch pattern_bump title ! 1"
    using match_patterns_first [of title] fst_extractPackageInfo_matched [of title U] by simp
next
  assume "match_patterns patterns title \<noteq> []"
  then show "fst (extractPackageInfo U title) = match_patterns patterns title"
    by (rule fst_extractPackageInfo_matched)
qed

theorem bump_title_package_witness:
  "map ascii_lower (runes ''BUMP'') = runes ''bump'' \<and>
   runes ''github.com/gin-gonic/gin'' \<noteq> [] \<and>
   list_all (\<lambda>c. \<not> regex_space c) (runes ''github.com/gin-gonic/gin'') \<and>
   fst (extractPackageInfo sample_tables
     (runes ''BUMP'' @ runes '' '' @ runes ''github.com/gin-gonic/gin'' @ runes '' from '' @
      runes ''1.7.0  '' @ runes '' to '' @ runes ''1.9.1 in /tools'')) =
     runes ''github.com/gin-gonic/gin'' \<and>
   length (FindStringSubmatch pattern_bump (runes ''bump a/b to 2'')) > 1 \<and>
   FindStringSubmatch pattern_bump (runes ''bump a/b to 2'') ! 1 \<noteq> [] \<and>
   fst (extractPackageInfo sample_tables (runes ''bump a/b to 2'')) = runes ''a/b''"
proof -
  define kw where "kw = runes ''BUMP''"
  define X where "X = runes ''github.com/gin-gonic/gin''"
  define A where "A = runes ''1.7.0  ''"
  define B where "B = runes ''1.9.1 in /tools''"
  define T where "T = runes ''bump a/b to 2''"
  have a: "map ascii_lower kw = runes ''bump''" unfolding kw_def by code_simp
  have b: "X \<noteq> []" by (simp add: X_def)
  have c: "list_all (\<lambda>c. \<not> regex_space c) X"
    unfolding X_def by code_simp
  then have c': "\<forall>c \<in> set X. \<not> regex_space c"
    unfolding list_all_iff .
  have d: "length (FindStringSubmatch pattern_bump T) > 1" unfolding T_def by code_simp
  have e: "FindStringSubmatch pattern_bump T ! 1 = runes ''a/b''" unfolding T_def by code_simp
  have e': "FindStringSubmatch pattern_bump T ! 1 \<noteq> []" unfolding e by simp
  note r = bump_title_package [of kw X sample_tables A B T]
  have "fst (extractPackageInfo sample_tables
     (kw @ runes '' '' @ X @ runes '' from '' @ A @ runes '' to '' @ B)) = X"
    using r a b c' by blast
  moreover have "fst (extractPackageInfo sample_tables T) = runes ''a/b''"
    using r d e' unfolding e by blast
  ultimately show ?thesis
    using a b c d e' unfolding kw_def X_def A_def B_def T_def by blast
qed

section \<open>Titles without a package\<close>

lemma TrimSpace_Nil [simp]: "TrimSpace U [] = []"
  by (simp add: TrimSpace_def)

lemma removeDuplicates_not_empty: "e \<in> set (removeDuplicates U xs) \<Longrightarrow> e \<noteq> []"
  using loop_kept_unseen [of e U "\<lambda>_. False" xs]
  by (auto simp: removeDuplicates_def normalized_def)

lemma denied_package_entry_empty_name:
  assumes "e \<noteq> []"
  shows "\<not> denied_package_entry U [] e"
proof (cases "42 \<in> set e")
  case True
  then show ?thesis by (simp add: denied_package_entry_star)
next
  case False
  then show ?thesis
    using assms by (simp add: denied_package_entry_def Contains_iff Let_def)
qed

lemma isDenied_empty_name:
  assumes "\<forall>e \<in> set es. e \<noteq> []" and "\<forall>d \<in> set ds. d \<noteq> []"
  shows "\<not> isDenied U [] [] es ds"
  using assms denied_package_entry_empty_name
  by (auto simp: isDenied_def denied_packages_loop_iff denied_orgs_loop_iff)

lemma first_package_like_none:
  "\<forall>part \<in> set parts. 47 \<notin> set part \<and> 64 \<notin> set part \<Longrightarrow> first_package_like parts = []"
  by (induction parts) (simp_all add: Contains_iff)

lemma fallback_package_none:
  "\<forall>part \<in> set (drop 1 (Fields U title)). 47 \<notin> set part \<and> 64 \<notin> set part \<Longrightarrow>
     fallback_package U title = []"
  by (simp add: fallback_package_def Let_def first_package_like_none)

lemma match_patterns_none:
  assumes "FindStringSubmatch pattern_bump title = []"
    and "FindStringSubmatch pattern_update title = []"
    and "FindStringSubmatch pattern_chore title = []"
  shows "match_patterns patterns title = []"
  using assms by (simp add: patterns_def)

lemma extractOrg_Nil: "extractOrg U [] = []"
  by (simp add: extractOrg_def)

text \<open>
  C4. Take a title that none of the three patterns matches and whose fields after the
  first have neither \<open>/\<close> nor \<open>@\<close>. The parser, a total function with no error to raise,
  returns the empty package name and the empty organisation. The matcher does not deny
  this pair under the lists of any query that \<^verbatim>\<open>runCheck\<close> builds, and the record of a pull
  request with this title is not skipped and has no reason.
\<close>

theorem unparsable_title_never_denied:
  "FindStringSubmatch pattern_bump title = [] \<and>
   FindStringSubmatch pattern_update title = [] \<and>
   FindStringSubmatch pattern_chore title = [] \<and>
   (\<forall>part \<in> set (drop 1 (Fields U title)).
      rune_of CHR ''/'' \<notin> set part \<and> rune_of CHR ''@'' \<notin> set part) \<longrightarrow>
     extractPackageInfo U title = ([], []) \<and>
     \<not> isDenied U (fst (extractPackageInfo U title)) (snd (extractPackageInfo U title))
          (DeniedPackages (buildQuery U cfg owner repo))
          (DeniedOrgs (buildQuery U cfg owner repo)) \<and>
     (prTitle p = title \<longrightarrow>
        \<not> Skipped (prInfo U (buildQuery U cfg owner repo) getStatus p) \<and>
        SkipReason (prInfo U (buildQuery U cfg owner repo) getStatus p) = [])"
proof (intro impI, elim conjE)
  assume m: "FindStringSubmatch pattern_bump title = []"
    "FindStringSubmatch pattern_update title = []"
    "FindStringSubmatch pattern_chore title = []"
    and "\<forall>part \<in> set (drop 1 (Fields U title)).
      rune_of CHR ''/'' \<notin> set part \<and> rune_of CHR ''@'' \<notin> set part"
  then have f: "\<forall>part \<in> set (drop 1 (Fields U title)). 47 \<notin> set part \<and> 64 \<notin> set part"
    by simp
  have e: "extractPackageInfo U title = ([], [])"
    using match_patterns_none [OF m] fallback_package_none [OF f]
    by (simp add: extractPackageInfo_def Let_def extractOrg_Nil)
  have d: "\<not> isDenied U [] [] (DeniedPackages (buildQuery U cfg owner repo))
      (DeniedOrgs (buildQuery U cfg owner repo))"
    unfolding DeniedPackages_buildQuery DeniedOrgs_buildQuery
    by (intro isDenied_empty_name ballI removeDuplicates_not_empty)
  have "\<not> Skipped (prInfo U (buildQuery U cfg owner repo) getStatus p) \<and>
        SkipReason (prInfo U (buildQuery U cfg owner repo) getStatus p) = []"
    if "prTitle p = title"
    using that e d
      prInfo_Skipped [of U p "[]" "[]" "buildQuery U cfg owner repo" getStatus]
      prInfo_SkipReason [of U p "[]" "[]" "buildQuery U cfg owner repo" getStatus]
    by simp
  with e d show "extractPackageInfo U title = ([], []) \<and>
     \<not> isDenied U (fst (extractPackageInfo U title)) (snd (extractPackageInfo U title))
          (DeniedPackages (buildQuery U cfg owner repo))
          (DeniedOrgs (buildQuery U cfg owner repo)) \<and>
     (prTitle p = title \<longrightarrow>
        \<not> Skipped (prInfo U (buildQuery U cfg owner repo) getStatus p) \<and>
        SkipReason (prInfo U (buildQuery U cfg owner repo) getStatus p) = [])"
    by simp
qed

theorem unparsable_title_never_denied_witness:
  "FindStringSubmatch pattern_bump (runes ''chore: tidy'' @ [0xA0] @ runes ''go.mod to 1.22'') = [] \<and>
   FindStringSubmatch pattern_update (runes ''chore: tidy'' @ [0xA0] @ runes ''go.mod to 1.22'') = [] \<and>
   FindStringSubmatch pattern_chore (runes ''chore: tidy'' @ [0xA0] @ runes ''go.mod to 1.22'') = [] \<and>
   list_all (\<lambda>part. rune_of CHR ''/'' \<notin> set part \<and> rune_of CHR ''@'' \<notin> set part)
     (drop 1 (Fields sample_tables (runes ''chore: tidy'' @ [0xA0] @ runes ''go.mod to 1.22''))) \<and>
   extractPackageInfo sample_tables (runes ''chore: tidy'' @ [0xA0] @ runes ''go.mod to 1.22'') =
     ([], []) \<and>
   \<not> Skipped (prInfo sample_tables
     (buildQuery sample_tables
        (map_of [(runes ''global.denied_packages'', [runes ''*rc*'', runes ''go.mod'', []]),
                 (runes ''global.denied_orgs'', [runes ''  ''])]) (runes ''o'') (runes ''r''))
     (\<lambda>owner repo sha. Inr (runes ''success''))
     \<lparr>prNumber = 3, prTitle = runes ''chore: tidy'' @ [0xA0] @ runes ''go.mod to 1.22'',
      prHTMLURL = runes ''u3'', prUserID = 49699333, prHeadSHA = runes ''abc''\<rparr>)"
proof -
  define title where "title = runes ''chore: tidy'' @ [0xA0] @ runes ''go.mod to 1.22''"
  define p where "p = \<lparr>prNumber = 3, prTitle = title,
      prHTMLURL = runes ''u3'', prUserID = 49699333, prHeadSHA = runes ''abc''\<rparr>"
  define cfg where "cfg =
      map_of [(runes ''global.denied_packages'', [runes ''*rc*'', runes ''go.mod'', []]),
              (runes ''global.denied_orgs'', [runes ''  ''])]"
  define g :: "gostring \<Rightarrow> gostring \<Rightarrow> gostring \<Rightarrow> api_error + gostring"
    where "g = (\<lambda>owner repo sha. Inr (runes ''success''))"
  have a: "FindStringSubmatch pattern_bump title = []" unfolding title_def by code_simp
  have b: "FindStringSubmatch pattern_update title = []" unfolding title_def by code_simp
  have c: "FindStringSubmatch pattern_chore title = []" unfolding title_def by code_simp
  have d: "list_all (\<lambda>part. rune_of CHR ''/'' \<notin> set part \<and> rune_of CHR ''@'' \<notin> set part)
     (drop 1 (Fields sample_tables title))"
    unfolding title_def by code_simp
  then have d': "\<forall>part \<in> set (drop 1 (Fields sample_tables title)).
      rune_of CHR ''/'' \<notin> set part \<and> rune_of CHR ''@'' \<notin> set part"
    unfolding list_all_iff .
  have t: "prTitle p = title" by (simp add: p_def)
  note r = unparsable_title_never_denied
    [of title sample_tables cfg "runes ''o''" "runes ''r''" p g]
  from r a b c d' t
  have "extractPackageInfo sample_tables title = ([], []) \<and>
      \<not> Skipped (prInfo sample_tables
        (buildQuery sample_tables cfg (runes ''o'') (runes ''r'')) g p)"
    by blast
  then show ?thesis
    using a b c d unfolding title_def p_def cfg_def g_def by blast
qed

section \<open>Examples beyond ASCII\<close>

text \<open>
  Four computations on the written-out tables, at inputs where the Unicode tables matter.
  A title with a no-break space is split there, so its second field is found. An
  organisation after \<open>gopkg.in/\<close> is lower-cased as a word of Unicode. An entry that is a
  no-break space alone is blank, and \<open>a\<close> followed by one is a duplicate of \<open>a\<close>. The
  organisation with a small e acute is denied by the entry with the capital one, and the
  reason names it.
\<close>

lemma example_title_with_no_break_space:
  "extractPackageInfo sample_tables (runes ''Fix'' @ [0xA0] @ runes ''a/b'') =
     (runes ''a/b'', runes ''b'')"
  by code_simp

lemma example_gopkg_capital_e_acute:
  "extractOrg sample_tables (runes ''gopkg.in/'' @ [0xC9] @ runes ''COLE/x'') =
     0xE9 # runes ''cole''"
  by code_simp

lemma example_blank_no_break_space:
  "removeDuplicates sample_tables [[0xA0], runes ''a'' @ [0xA0], runes ''a''] =
     [runes ''a'' @ [0xA0]]"
  by code_simp

lemma example_org_folded:
  "org_reason_loop sample_tables (0xE9 # runes ''cole'') [0xC9 # runes ''cole''] =
     runes ''org '' @ [0x27] @ (0xE9 # runes ''cole'') @ [0x27] @ runes '' is denied''"
  by code_simp

end
